theory Spec2Isabelle
  imports Main "HOL-Library.Sublist"
begin

section \<open>Python strings and errors\<close>

text \<open>
  Python's \<^verbatim>\<open>sub in s\<close> on strings: \<open>sub\<close> occurs in \<open>s\<close> as a contiguous run of
  characters.
\<close>

fun str_in :: "string \<Rightarrow> string \<Rightarrow> bool" where
  "str_in sub [] = (sub = [])"
| "str_in sub (c # cs) = (prefix sub (c # cs) \<or> str_in sub cs)"

text \<open>
  Decimal text of a number, as \<^verbatim>\<open>str\<close>, an f-string or \<^verbatim>\<open>"%d" % i\<close> give it.
\<close>

definition digit_char :: "nat \<Rightarrow> char" where
  "digit_char n = ''0123456789'' ! n"

function str_nat :: "nat \<Rightarrow> string" where
  "str_nat n =
     (if n < 10 then [digit_char n] else str_nat (n div 10) @ [digit_char (n mod 10)])"
  by pat_completeness auto
termination
  by (relation "measure id") auto

definition str_int :: "int \<Rightarrow> string" where
  "str_int i = (if i < 0 then CHR ''-'' # str_nat (nat (- i)) else str_nat (nat i))"

text \<open>\<^verbatim>\<open>sep.join(xs)\<close>.\<close>

fun join :: "string \<Rightarrow> string list \<Rightarrow> string" where
  "join sep [] = []"
| "join sep [x] = x"
| "join sep (x # y # ys) = x @ sep @ join sep (y # ys)"

text \<open>
  The exceptions the modelled code can raise. \<open>KeyError k\<close> is a failed lookup of the
  key \<open>k\<close> (an enum member by name, a dictionary entry), \<open>RuntimeError msg\<close> carries its
  message, \<open>AttributeError a\<close> is a read of an attribute \<open>a\<close> the object does not have,
  \<open>StopIteration\<close> is \<^verbatim>\<open>next\<close> on an exhausted generator, \<open>TypeError\<close> is an
  iteration over a value that cannot be iterated. \<open>NoSuchNode i\<close> is not a
  Python exception: it is the model's answer when an edge names, by its index \<open>i\<close>, a
  node that its state does not have. An edge of a graph object holds its end nodes
  themselves, so no run of the code meets this case.
\<close>

datatype error =
    KeyError string
  | RuntimeError string
  | AttributeError string
  | StopIteration
  | TypeError
  | NoSuchNode nat

section \<open>dace\_config.py\<close>

datatype DaCeOrchestration = Python | Build | BuildAndRun | Run

text \<open>
  \<^verbatim>\<open>DaCeOrchestration[name]\<close>: the member of that name, \<^verbatim>\<open>KeyError\<close> when the enum has no
  such member.
\<close>

definition DaCeOrchestration_getitem :: "string \<Rightarrow> error + DaCeOrchestration" where
  "DaCeOrchestration_getitem name =
     (if name = ''Python'' then Inr Python
      else if name = ''Build'' then Inr Build
      else if name = ''BuildAndRun'' then Inr BuildAndRun
      else if name = ''Run'' then Inr Run
      else Inl (KeyError name))"

text \<open>\<^verbatim>\<open>str(member)\<close> of a plain \<^verbatim>\<open>enum.Enum\<close> member, as used in f-strings.\<close>

fun DaCeOrchestration_str :: "DaCeOrchestration \<Rightarrow> string" where
  "DaCeOrchestration_str Python = ''DaCeOrchestration.Python''"
| "DaCeOrchestration_str Build = ''DaCeOrchestration.Build''"
| "DaCeOrchestration_str BuildAndRun = ''DaCeOrchestration.BuildAndRun''"
| "DaCeOrchestration_str Run = ''DaCeOrchestration.Run''"

text \<open>
  The communicator the constructor receives: the three things the constructor reads
  from it, \<^verbatim>\<open>communicator.rank\<close>, \<^verbatim>\<open>communicator.comm.Get_size()\<close> and
  \<^verbatim>\<open>communicator.partitioner\<close>. The partitioner is opaque to this code.
\<close>

record 'p CubedSphereCommunicator =
  rank :: int
  comm_Get_size :: int
  partitioner :: 'p

text \<open>
  A Python object is its attribute dictionary. The values the constructor stores are
  orchestration modes, strings and integers.
\<close>

datatype pyval = ModeV DaCeOrchestration | StrV string | IntV int

type_synonym pyobj = "string \<rightharpoonup> pyval"

definition getattr :: "pyobj \<Rightarrow> string \<Rightarrow> error + pyval" where
  "getattr self a = (case self a of None \<Rightarrow> Inl (AttributeError a) | Some v \<Rightarrow> Inr v)"

text \<open>
  The calls the constructor makes into \<^verbatim>\<open>pace.dsl.dace.build\<close>, in the order they
  happen. \<open>ReadTargetRank r p path\<close> is
  \<^verbatim>\<open>read_target_rank(rank=r, partitioner=p, config=self, layout_filepath=path)\<close>,
  \<open>SetDistributedCaches my target\<close> is \<^verbatim>\<open>set_distributed_caches(self)\<close> with the
  \<^verbatim>\<open>my_rank\<close> and \<^verbatim>\<open>target_rank\<close> attributes \<open>self\<close> has at the call, and
  \<open>WriteDecomposition p\<close> is \<^verbatim>\<open>write_decomposition(p)\<close>.
\<close>

datatype 'p build_call =
    ReadTargetRank int 'p string
  | SetDistributedCaches int int
  | WriteDecomposition 'p

text \<open>
  The process-wide state the constructor reads and changes: the environment
  (\<^verbatim>\<open>os.getenv\<close>), gt4py's \<^verbatim>\<open>cache_settings['root_path']\<close>, and the calls made so
  far into the build module.
\<close>

record 'p world =
  environ :: "string \<rightharpoonup> string"
  root_path :: string
  calls :: "'p build_call list"

definition os_getenv :: "'p world \<Rightarrow> string \<Rightarrow> string \<Rightarrow> string" where
  "os_getenv w key dflt = (case environ w key of None \<Rightarrow> dflt | Some v \<Rightarrow> v)"

definition call :: "'p build_call \<Rightarrow> 'p world \<Rightarrow> 'p world" where
  "call c w = w\<lparr>calls := calls w @ [c]\<rparr>"

text \<open>Lines 35 to 38 of the constructor: the mode the constructor stores.\<close>

definition resolve_orchestrate ::
  "'p world \<Rightarrow> DaCeOrchestration option \<Rightarrow> error + DaCeOrchestration" where
  "resolve_orchestrate w orchestration =
     (case orchestration of
        None \<Rightarrow> DaCeOrchestration_getitem (os_getenv w ''FV3_DACEMODE'' ''Python'')
      | Some m \<Rightarrow> Inr m)"

definition orchestration_error_message :: "string \<Rightarrow> string" where
  "orchestration_error_message backend =
     ''DaceConfig: orchestration can only be leverage '' @
     ''on gtc:dace or gtc:dace:gpu not on '' @ backend"

text \<open>
  \<^verbatim>\<open>DaceConfig.__init__\<close>. The function \<open>read_target_rank\<close> stands for the result of
  the build module's function of that name, whose body is not part of the modelled
  files; the three build-module functions are taken to return normally. The result
  is the constructed object or the exception raised, together with the world the
  constructor leaves behind in either case.
\<close>

definition DaceConfig_init ::
  "(int \<Rightarrow> 'p \<Rightarrow> string \<Rightarrow> int) \<Rightarrow> 'p CubedSphereCommunicator option \<Rightarrow> string \<Rightarrow>
   DaCeOrchestration option \<Rightarrow> 'p world \<Rightarrow> (error + pyobj) \<times> 'p world" where
  "DaceConfig_init read_target_rank communicator backend orchestration w =
     (case resolve_orchestrate w orchestration of
        Inl e \<Rightarrow> (Inl e, w)
      | Inr orchestrate \<Rightarrow>
          let self = Map.empty(''_orchestrate'' \<mapsto> ModeV orchestrate);
              self = self(''_backend'' \<mapsto> StrV backend);
              (my_rank, rank_size, target_rank, w) =
                (case communicator of
                   Some c \<Rightarrow>
                     let config_path = root_path w @ ''/.layout/decomposition.yml'';
                         w = call (ReadTargetRank (rank c) (partitioner c) config_path) w
                     in (rank c, comm_Get_size c,
                         read_target_rank (rank c) (partitioner c) config_path, w)
                 | None \<Rightarrow> (0, 1, 0, w));
              self = self(''my_rank'' \<mapsto> IntV my_rank);
              self = self(''rank_size'' \<mapsto> IntV rank_size);
              self = self(''target_rank'' \<mapsto> IntV target_rank);
              w = call (SetDistributedCaches my_rank target_rank) w
          in (case (if (orchestrate = Build \<or> orchestrate = BuildAndRun)
                       \<and> my_rank = 0 \<and> rank_size > 1
                    then (case communicator of
                            Some c \<Rightarrow> Inr (call (WriteDecomposition (partitioner c)) w)
                          | None \<Rightarrow> Inl (AttributeError ''partitioner''))
                    else Inr w) of
                Inl e \<Rightarrow> (Inl e, w)
              | Inr w \<Rightarrow>
                  if orchestrate \<noteq> Python \<and> \<not> str_in ''dace'' backend
                  then (Inl (RuntimeError (orchestration_error_message backend)), w)
                  else (Inr self, w)))"

definition is_dace_orchestrated :: "pyobj \<Rightarrow> error + bool" where
  "is_dace_orchestrated self =
     (case getattr self ''_orchestrate'' of
        Inl e \<Rightarrow> Inl e
      | Inr v \<Rightarrow> Inr (v \<noteq> ModeV Python))"

definition get_backend :: "pyobj \<Rightarrow> error + pyval" where
  "get_backend self = getattr self ''_backend''"

definition get_orchestrate :: "pyobj \<Rightarrow> error + pyval" where
  "get_orchestrate self = getattr self ''_orchestrate''"

definition get_communicator :: "pyobj \<Rightarrow> error + pyval" where
  "get_communicator self = getattr self ''_communicator''"

text \<open>
  Modelled from the spec: \<^verbatim>\<open>read_target_rank\<close> of \<^verbatim>\<open>pace.dsl.dace.build\<close> is not
  among the source files. By the spec it returns the rank it is given when no
  descriptor file exists yet. This is the function used in the concrete runs below;
  the general statements hold for every function in its place.
\<close>

definition own_rank :: "int \<Rightarrow> 'p \<Rightarrow> string \<Rightarrow> int" where
  "own_rank r p path = r"

text \<open>The calls of \<^verbatim>\<open>write_decomposition\<close> among the calls made.\<close>

definition is_WriteDecomposition :: "'p build_call \<Rightarrow> bool" where
  "is_WriteDecomposition c = (case c of WriteDecomposition _ \<Rightarrow> True | _ \<Rightarrow> False)"

section \<open>utils.py: the progress logger\<close>

text \<open>\<^verbatim>\<open>str(v)\<close> of a stored value, as an f-string formats it.\<close>

fun pyval_str :: "pyval \<Rightarrow> string" where
  "pyval_str (ModeV m) = DaCeOrchestration_str m"
| "pyval_str (StrV s) = s"
| "pyval_str (IntV i) = str_int i"

text \<open>
  What the logger sees of the process: the lines printed so far, and the clock.
  \<^verbatim>\<open>time.time()\<close> returns the reading \<open>clock io (ticks io)\<close> and moves on to the next
  reading. The type \<open>'t\<close> of readings is the type of Python floats; the logger only
  subtracts two readings and formats the difference.
\<close>

record 't io =
  stdout :: "string list"
  clock :: "nat \<Rightarrow> 't"
  ticks :: nat

definition print_line :: "string \<Rightarrow> 't io \<Rightarrow> 't io" where
  "print_line line io = io\<lparr>stdout := stdout io @ [line]\<rparr>"

definition time_time :: "'t io \<Rightarrow> 't \<times> 't io" where
  "time_time io = (clock io (ticks io), io\<lparr>ticks := Suc (ticks io)\<rparr>)"

text \<open>
  A \<^verbatim>\<open>DaCeProgress\<close> object. The attribute \<^verbatim>\<open>start\<close> does not exist until
  \<^verbatim>\<open>__enter__\<close> has run.
\<close>

record 't DaCeProgress =
  prefix :: string
  label :: string
  start :: "'t option"

definition default_prefix :: "pyobj \<Rightarrow> error + string" where
  "default_prefix config =
     (case get_orchestrate config of
        Inl e \<Rightarrow> Inl e
      | Inr v \<Rightarrow> Inr (''['' @ pyval_str v @ '']''))"

definition DaCeProgress_init :: "pyobj \<Rightarrow> string \<Rightarrow> error + 't DaCeProgress" where
  "DaCeProgress_init config lbl =
     (case default_prefix config of
        Inl e \<Rightarrow> Inl e
      | Inr p \<Rightarrow>
          (case get_orchestrate config of
             Inl e \<Rightarrow> Inl e
           | Inr v \<Rightarrow>
               Inr \<lparr>prefix = ''['' @ pyval_str v @ '']'', label = lbl, start = None\<rparr>))"

definition log :: "string \<Rightarrow> string \<Rightarrow> 't io \<Rightarrow> 't io" where
  "log pfx message io = print_line (pfx @ '' '' @ message) io"

definition DaCeProgress_enter :: "'t DaCeProgress \<Rightarrow> 't io \<Rightarrow> 't DaCeProgress \<times> 't io" where
  "DaCeProgress_enter self io =
     (let io = log (prefix self) (label self @ ''...'') io;
          (t, io) = time_time io
      in (self\<lparr>start := Some t\<rparr>, io))"

text \<open>
  \<^verbatim>\<open>__exit__\<close>. \<open>float_str\<close> is the text an f-string gives a float. The method
  returns \<^verbatim>\<open>None\<close>, which the \<^verbatim>\<open>with\<close> statement reads as false: the result
  \<open>Inr False\<close>.
\<close>

definition DaCeProgress_exit ::
  "('t::minus \<Rightarrow> string) \<Rightarrow> 't DaCeProgress \<Rightarrow> 't io \<Rightarrow> (error + bool) \<times> 't io" where
  "DaCeProgress_exit float_str self io =
     (let (t, io) = time_time io
      in (case start self of
            None \<Rightarrow> (Inl (AttributeError ''start''), io)
          | Some s \<Rightarrow>
              let elapsed = t - s
              in (Inr False,
                  log (prefix self) (label self @ ''...'' @ float_str elapsed @ ''s.'') io)))"

text \<open>
  Python's \<^verbatim>\<open>with mgr: body\<close>. The body ends normally (\<open>None\<close>) or raises
  (\<open>Some e\<close>); \<^verbatim>\<open>__exit__\<close> runs in both cases, an exception of the body is raised
  again unless \<^verbatim>\<open>__exit__\<close> returned a true value, and an exception of
  \<^verbatim>\<open>__exit__\<close> itself is raised.
\<close>

definition with_DaCeProgress ::
  "('t::minus \<Rightarrow> string) \<Rightarrow> 't DaCeProgress \<Rightarrow> ('t io \<Rightarrow> error option \<times> 't io) \<Rightarrow>
   't io \<Rightarrow> error option \<times> 't io" where
  "with_DaCeProgress float_str mgr body io =
     (let (mgr, io) = DaCeProgress_enter mgr io;
          (raised, io) = body io
      in (case DaCeProgress_exit float_str mgr io of
            (Inl e, io) \<Rightarrow> (Some e, io)
          | (Inr suppress, io) \<Rightarrow>
              (case raised of
                 None \<Rightarrow> (None, io)
               | Some e \<Rightarrow> if suppress then (None, io) else (Some e, io))))"

section \<open>The computation graph\<close>

text \<open>
  \<^verbatim>\<open>utils.py\<close> works on the graph objects of the \<^verbatim>\<open>dace\<close> library. The model holds
  what the code reads of them. \<open>StorageType\<close> and \<open>ScheduleType\<close> are the library's
  enums; the code iterates over all storage types and names two of them and two
  schedule types.
\<close>

datatype StorageType =
    Default | Register | CPU_Pinned | CPU_Heap | CPU_ThreadLocal
  | GPU_Global | GPU_Shared
  | FPGA_Global | FPGA_Local | FPGA_Registers | FPGA_ShiftRegister | SVE_Register

datatype ScheduleType =
    Default | Sequential | MPI | CPU_Multicore | GPU_Default | GPU_Device | GPU_ThreadBlock

text \<open>
  An array descriptor (\<^verbatim>\<open>arr\<close>, \<^verbatim>\<open>inparr\<close>): \<^verbatim>\<open>arr.total_size\<close>,
  \<^verbatim>\<open>arr.dtype.bytes\<close>, \<^verbatim>\<open>arr.storage\<close>, \<^verbatim>\<open>arr.transient\<close>, whether it is an
  instance of \<^verbatim>\<open>dt.View\<close>, and \<^verbatim>\<open>arr.shape\<close>. Symbolic expressions (the entries of
  a shape and of a subset) are carried as their text.
\<close>

record data_desc =
  total_size :: int
  dtype_bytes :: int
  storage :: StorageType
  transient :: bool
  is_View :: bool
  shape :: "string list"

text \<open>
  The subset of a memlet is an object of the library: a range, which iterates over
  its triples \<open>(begin, end, step)\<close>, or a list of indices, which iterates over its
  single index expressions. An empty memlet, as on an edge that only orders two
  nodes, has no subset: its \<^verbatim>\<open>subset\<close> is \<^verbatim>\<open>None\<close>.
\<close>

datatype subset = Range_subset "(string \<times> string \<times> string) list" | Indices_subset "string list"

text \<open>A memlet: its subset and its dynamic flag.\<close>

record memlet =
  subset :: "subset option"
  dynamic :: bool

text \<open>
  An edge of a state. The nodes of a state are numbered by their position in the
  state's node list, and an edge names its end nodes by these numbers. \<open>data\<close> is
  the edge's memlet. \<open>memlet_path_head\<close> is the memlet of the first edge of the
  library's \<^verbatim>\<open>state.memlet_path(e)\<close>: for an edge that leaves a map exit, the edge
  inside the map where the written data comes from.
\<close>

record edge =
  src :: nat
  dst :: nat
  data :: memlet
  memlet_path_head :: memlet

text \<open>
  Nodes, states and graphs. \<open>AccessNode a\<close> is an access node with \<^verbatim>\<open>node.data = a\<close>;
  a nested graph is a node of a state. A state holds its nodes, its edges and the
  library's scope dictionary, which gives the entry node of the scope a node lies in
  (no entry for a node outside every scope). A graph holds its name, its
  \<^verbatim>\<open>arrays\<close> dictionary in iteration order, and its states.
\<close>

datatype node =
    AccessNode string
  | MapEntry string
  | MapExit string
  | Tasklet string
  | NestedSDFG sdfg
and state = SDFGState "node list" "edge list" "(nat \<times> nat) list"
and sdfg = SDFG string "(string \<times> data_desc) list" "state list"

fun nodes :: "state \<Rightarrow> node list" where
  "nodes (SDFGState ns es sc) = ns"

fun edges :: "state \<Rightarrow> edge list" where
  "edges (SDFGState ns es sc) = es"

fun scope_dict :: "state \<Rightarrow> (nat \<times> nat) list" where
  "scope_dict (SDFGState ns es sc) = sc"

fun arrays :: "sdfg \<Rightarrow> (string \<times> data_desc) list" where
  "arrays (SDFG n arrs sts) = arrs"

fun states :: "sdfg \<Rightarrow> state list" where
  "states (SDFG n arrs sts) = sts"

text \<open>
  The graph is a tree: a nested graph has one place in it. A part of a graph that is
  equal to the whole graph is therefore the whole graph, and the code's tests
  \<^verbatim>\<open>sd is sdfg\<close> and \<^verbatim>\<open>state.parent is sd\<close>, which compare a graph met on the way
  down from a root with that root, are equalities in the model.

  \<^verbatim>\<open>sdfg.arrays_recursive()\<close>: the graph's own arrays, each with the graph, then
  those of the nested graphs, state by state and node by node.
\<close>

fun arrays_recursive :: "sdfg \<Rightarrow> (sdfg \<times> string \<times> data_desc) list"
  and arrays_recursive_states :: "state list \<Rightarrow> (sdfg \<times> string \<times> data_desc) list"
  and arrays_recursive_nodes :: "node list \<Rightarrow> (sdfg \<times> string \<times> data_desc) list"
where
  "arrays_recursive (SDFG n arrs sts) =
     map (\<lambda>(aname, arr). (SDFG n arrs sts, aname, arr)) arrs @ arrays_recursive_states sts"
| "arrays_recursive_states [] = []"
| "arrays_recursive_states (SDFGState ns es sc # sts) =
     arrays_recursive_nodes ns @ arrays_recursive_states sts"
| "arrays_recursive_nodes [] = []"
| "arrays_recursive_nodes (NestedSDFG g # ns) =
     arrays_recursive g @ arrays_recursive_nodes ns"
| "arrays_recursive_nodes (n # ns) = arrays_recursive_nodes ns"

text \<open>
  \<^verbatim>\<open>sdfg.all_nodes_recursive()\<close> yields pairs of a node and its parent: every state
  with its graph, every node of a state with the state, and the same for the nested
  graphs, in depth-first order. \<open>StateItem st sd\<close> is the pair of the state \<open>st\<close> and
  its graph \<open>sd\<close>. \<open>NodeItem i n st sd anc\<close> is the pair of the node \<open>n\<close>, the \<open>i\<close>-th
  node of the state \<open>st\<close>, and \<open>st\<close>; with it come what the code reaches from the
  state through parent links: \<^verbatim>\<open>state.parent\<close>, which is \<open>sd\<close>, and for each nested
  graph around \<open>sd\<close>, innermost first, the state and the number of the node that holds
  it (\<^verbatim>\<open>sdfg.parent\<close> and \<^verbatim>\<open>sdfg.parent_nsdfg_node\<close>), which is \<open>anc\<close>.
\<close>

type_synonym ancestors = "(state \<times> nat) list"

datatype item =
    StateItem state sdfg
  | NodeItem nat node state sdfg ancestors

fun all_nodes_recursive :: "ancestors \<Rightarrow> sdfg \<Rightarrow> item list"
  and all_nodes_recursive_states :: "ancestors \<Rightarrow> sdfg \<Rightarrow> state list \<Rightarrow> item list"
  and all_nodes_recursive_nodes ::
    "ancestors \<Rightarrow> sdfg \<Rightarrow> state \<Rightarrow> nat \<Rightarrow> node list \<Rightarrow> item list"
where
  "all_nodes_recursive anc (SDFG n arrs sts) =
     all_nodes_recursive_states anc (SDFG n arrs sts) sts"
| "all_nodes_recursive_states anc sd [] = []"
| "all_nodes_recursive_states anc sd (SDFGState ns es sc # sts) =
     StateItem (SDFGState ns es sc) sd #
     all_nodes_recursive_nodes anc sd (SDFGState ns es sc) 0 ns @
     all_nodes_recursive_states anc sd sts"
| "all_nodes_recursive_nodes anc sd st i [] = []"
| "all_nodes_recursive_nodes anc sd st i (NestedSDFG g # ns) =
     NodeItem i (NestedSDFG g) st sd anc #
     all_nodes_recursive ((st, i) # anc) g @
     all_nodes_recursive_nodes anc sd st (Suc i) ns"
| "all_nodes_recursive_nodes anc sd st i (n # ns) =
     NodeItem i n st sd anc # all_nodes_recursive_nodes anc sd st (Suc i) ns"

section \<open>utils.py: the memory report\<close>

text \<open>
  \<^verbatim>\<open>is_ref(sd, aname)\<close>. The loop skips the pairs whose parent is not a state, and
  looks for an access node of that name whose state has \<open>sd\<close> itself as its parent.
\<close>

fun is_ref_item :: "sdfg \<Rightarrow> string \<Rightarrow> item \<Rightarrow> bool" where
  "is_ref_item sd aname (StateItem st p) = False"
| "is_ref_item sd aname (NodeItem i n st p anc) = (p = sd \<and> n = AccessNode aname)"

definition is_ref :: "sdfg \<Rightarrow> string \<Rightarrow> bool" where
  "is_ref sd aname = list_ex (is_ref_item sd aname) (all_nodes_recursive [] sd)"

record ArrayReport =
  name :: string
  total_size_in_bytes :: int
  referenced :: bool
  transient :: bool
  top_level :: bool

record StorageReport =
  name :: StorageType
  referenced_in_bytes :: int
  unreferenced_in_bytes :: int
  top_level_in_bytes :: int
  details :: "ArrayReport list"

text \<open>
  The dictionary \<^verbatim>\<open>allocations\<close> has an entry for every storage type, so it is a
  total function. The four updates are the statements of the loop body.
\<close>

type_synonym allocations = "StorageType \<Rightarrow> StorageReport"

definition empty_allocations :: allocations where
  "empty_allocations storage_type =
     \<lparr>StorageReport.name = storage_type, referenced_in_bytes = 0,
      unreferenced_in_bytes = 0, top_level_in_bytes = 0, details = []\<rparr>"

definition append_detail :: "StorageType \<Rightarrow> ArrayReport \<Rightarrow> allocations \<Rightarrow> allocations" where
  "append_detail st rep al = al(st := (al st)\<lparr>details := details (al st) @ [rep]\<rparr>)"

definition add_referenced :: "StorageType \<Rightarrow> int \<Rightarrow> allocations \<Rightarrow> allocations" where
  "add_referenced st n al =
     al(st := (al st)\<lparr>referenced_in_bytes := referenced_in_bytes (al st) + n\<rparr>)"

definition add_unreferenced :: "StorageType \<Rightarrow> int \<Rightarrow> allocations \<Rightarrow> allocations" where
  "add_unreferenced st n al =
     al(st := (al st)\<lparr>unreferenced_in_bytes := unreferenced_in_bytes (al st) + n\<rparr>)"

definition add_top_level :: "StorageType \<Rightarrow> int \<Rightarrow> allocations \<Rightarrow> allocations" where
  "add_top_level st n al =
     al(st := (al st)\<lparr>top_level_in_bytes := top_level_in_bytes (al st) + n\<rparr>)"

text \<open>The body of the loop of \<^verbatim>\<open>count_memory\<close>, lines 73 to 106.\<close>

definition count_memory_step ::
  "sdfg \<Rightarrow> allocations \<Rightarrow> sdfg \<times> string \<times> data_desc \<Rightarrow> allocations" where
  "count_memory_step sdfg allocations entry =
     (case entry of (sd, aname, arr) \<Rightarrow>
        let array_size_in_bytes = total_size arr * dtype_bytes arr;
            ref = is_ref sd aname
        in if sd \<noteq> sdfg \<and> data_desc.transient arr
           then
             let allocations = append_detail (storage arr)
                   \<lparr>ArrayReport.name = aname,
                    total_size_in_bytes = array_size_in_bytes,
                    referenced = ref,
                    ArrayReport.transient = data_desc.transient arr,
                    top_level = False\<rparr> allocations
             in if ref
                then add_referenced (storage arr) array_size_in_bytes allocations
                else add_unreferenced (storage arr) array_size_in_bytes allocations
           else if sd = sdfg
           then
             let allocations = append_detail (storage arr)
                   \<lparr>ArrayReport.name = aname,
                    total_size_in_bytes = array_size_in_bytes,
                    referenced = ref,
                    ArrayReport.transient = data_desc.transient arr,
                    top_level = True\<rparr> allocations;
                 allocations = add_top_level (storage arr) array_size_in_bytes allocations
             in if ref
                then add_referenced (storage arr) array_size_in_bytes allocations
                else add_unreferenced (storage arr) array_size_in_bytes allocations
           else allocations)"

text \<open>
  \<^verbatim>\<open>count_memory\<close> up to line 107: the dictionary \<^verbatim>\<open>allocations\<close> when the loop has
  ended. The rest of the function renders these numbers as text, in megabytes with two
  decimals; that floating-point formatting is not modelled.
\<close>

definition count_memory_allocations :: "sdfg \<Rightarrow> allocations" where
  "count_memory_allocations sdfg =
     foldl (count_memory_step sdfg) empty_allocations (arrays_recursive sdfg)"

section \<open>utils.py: the NaN checker\<close>

text \<open>
  The library's queries on a state. \<^verbatim>\<open>state.entry_node(n)\<close> reads the scope
  dictionary. \<^verbatim>\<open>state.exit_node(me)\<close> is the first exit node among the nodes whose
  scope is \<open>me\<close>, and \<^verbatim>\<open>next\<close> raises when there is none. \<^verbatim>\<open>state.out_edges(n)\<close>
  are the edges that leave \<open>n\<close>.
\<close>

definition entry_node :: "state \<Rightarrow> nat \<Rightarrow> nat option" where
  "entry_node st n = map_of (scope_dict st) n"

fun is_ExitNode :: "node \<Rightarrow> bool" where
  "is_ExitNode (MapExit m) = True"
| "is_ExitNode n = False"

definition exit_node :: "state \<Rightarrow> nat \<Rightarrow> error + nat" where
  "exit_node st me =
     (case find (\<lambda>(v, n). entry_node st v = Some me \<and> is_ExitNode n)
             (List.enumerate 0 (nodes st)) of
        None \<Rightarrow> Inl StopIteration
      | Some (v, n) \<Rightarrow> Inr v)"

definition out_edges :: "state \<Rightarrow> nat \<Rightarrow> edge list" where
  "out_edges st n = filter (\<lambda>e. src e = n) (edges st)"

definition node_at :: "state \<Rightarrow> nat \<Rightarrow> node option" where
  "node_at st i = (if i < length (nodes st) then Some (nodes st ! i) else None)"

text \<open>
  The library's \<^verbatim>\<open>get_parent_map(state, node)\<close>: the entry node of the scope the node
  lies in, if any; otherwise the same question for the node that holds the state's
  graph in the state around it, and so on up to the root, where the answer is
  \<^verbatim>\<open>None\<close>.
\<close>

fun get_parent_map :: "state \<Rightarrow> nat option \<Rightarrow> ancestors \<Rightarrow> (nat \<times> state) option" where
  "get_parent_map curstate curscope anc =
     (case (case curscope of None \<Rightarrow> None | Some n \<Rightarrow> entry_node curstate n) of
        Some scope \<Rightarrow> Some (scope, curstate)
      | None \<Rightarrow>
          (case anc of
             [] \<Rightarrow> None
           | (pstate, pnode) # rest \<Rightarrow> get_parent_map pstate (Some pnode) rest))"

text \<open>
  A loop that appends the results of its steps to a list and stops at the first
  exception.
\<close>

fun collect :: "('a \<Rightarrow> error + 'b list) \<Rightarrow> 'a list \<Rightarrow> error + 'b list" where
  "collect f [] = Inr []"
| "collect f (x # xs) =
     (case f x of
        Inl e \<Rightarrow> Inl e
      | Inr ys \<Rightarrow> (case collect f xs of Inl e \<Rightarrow> Inl e | Inr zs \<Rightarrow> Inr (ys @ zs)))"

text \<open>
  An entry of the list \<^verbatim>\<open>checks\<close>: the state, the graph \<^verbatim>\<open>state.parent\<close>, the
  access node (its number and its \<^verbatim>\<open>data\<close>) and the edge.
\<close>

record nan_check =
  check_state :: state
  check_parent :: sdfg
  check_node :: nat
  check_data :: string
  check_edge :: edge

text \<open>
  Lines 170 to 181, for one edge that leaves the map exit: nothing for an edge whose
  destination is not an access node, and for one skipped by a \<^verbatim>\<open>continue\<close>.
  \<^verbatim>\<open>e.dst.desc(state.parent)\<close> looks the node's \<^verbatim>\<open>data\<close> up in the arrays of the
  state's graph. The destination here is not a view, so the library's
  \<^verbatim>\<open>get_last_view_node\<close> returns it unchanged.
\<close>

definition check_out_edge :: "sdfg \<Rightarrow> state \<Rightarrow> edge \<Rightarrow> error + nan_check list" where
  "check_out_edge parent st e =
     (case node_at st (dst e) of
        None \<Rightarrow> Inl (NoSuchNode (dst e))
      | Some (AccessNode aname) \<Rightarrow>
          (case map_of (arrays parent) aname of
             None \<Rightarrow> Inl (KeyError aname)
           | Some desc \<Rightarrow>
               if is_View desc then Inr []
               else if str_in ''diss_estd'' aname then Inr []
               else if dynamic (memlet_path_head e) then Inr []
               else Inr [\<lparr>check_state = st, check_parent = parent, check_node = dst e,
                          check_data = aname, check_edge = e\<rparr>])
      | Some n \<Rightarrow> Inr [])"

fun is_MapEntry_item :: "item \<Rightarrow> bool" where
  "is_MapEntry_item (NodeItem i (MapEntry m) st p anc) = True"
| "is_MapEntry_item it = False"

fun is_topmap :: "item \<Rightarrow> bool" where
  "is_topmap (NodeItem me n st p anc) = (get_parent_map st (Some me) anc = None)"
| "is_topmap (StateItem st p) = False"

text \<open>Lines 168 to 181, for one entry \<^verbatim>\<open>(me, state)\<close> of \<^verbatim>\<open>topmaps\<close>.\<close>

fun check_map :: "item \<Rightarrow> error + nan_check list" where
  "check_map (NodeItem me n st p anc) =
     (case exit_node st me of
        Inl e \<Rightarrow> Inl e
      | Inr mx \<Rightarrow> collect (check_out_edge p st) (out_edges st mx))"
| "check_map (StateItem st p) = Inr []"

text \<open>
  The arguments of the call \<^verbatim>\<open>state.add_mapped_tasklet(...)\<close> that differ from call
  to call, and its \<^verbatim>\<open>name\<close>. A memlet built by \<^verbatim>\<open>Memlet.simple\<close> is the pair of
  its data and its index text, for the output with \<^verbatim>\<open>num_accesses\<close>; \<open>code\<close> holds
  the three lines of the tasklet's code without their indentation.
\<close>

record mapped_tasklet =
  name :: string
  map_ranges :: "(string \<times> string \<times> string \<times> string) list"
  inputs :: "string \<times> string \<times> string"
  code :: "string list"
  schedule :: ScheduleType
  outputs :: "string \<times> string \<times> string \<times> int"

text \<open>
  Lines 208 to 212: the loop over \<^verbatim>\<open>enumerate(e.data.subset)\<close> that builds
  \<^verbatim>\<open>ranges\<close>. \<open>evaluate\<close> is the function of that name of line 197, a substitution in
  a symbolic expression. \<^verbatim>\<open>enumerate(None)\<close> raises \<^verbatim>\<open>TypeError\<close>, and so does the
  unpacking of an element into \<^verbatim>\<open>(begin, end, step)\<close> when the element is a single
  index expression; a list of no indices gives no ranges.
\<close>

fun map_ranges_of ::
  "(string \<Rightarrow> string) \<Rightarrow> subset option \<Rightarrow> error + (string \<times> string \<times> string \<times> string) list"
where
  "map_ranges_of evaluate None = Inl TypeError"
| "map_ranges_of evaluate (Some (Range_subset rs)) =
     Inr (map (\<lambda>(i, (begin, end, step)).
                 (''__i'' @ str_nat i, (evaluate begin, evaluate end, evaluate step)))
              (List.enumerate 0 rs))"
| "map_ranges_of evaluate (Some (Indices_subset [])) = Inr []"
| "map_ranges_of evaluate (Some (Indices_subset (x # xs))) = Inl TypeError"

text \<open>
  The body of the second loop, lines 183 to 230, for one entry of \<^verbatim>\<open>checks\<close>: the
  call of \<^verbatim>\<open>add_mapped_tasklet\<close> it makes, or the exception raised before the call.
  The copy of the access node and the edges the loop moves from the node to its copy
  change the graph through the library; they do not change any argument of this call
  and are not modelled. The library calls themselves are taken to return.
\<close>

definition insert_check ::
  "(string \<Rightarrow> string) \<Rightarrow> nan_check \<Rightarrow> error + (nan_check \<times> mapped_tasklet) list" where
  "insert_check evaluate c =
     (case map_of (arrays (check_parent c)) (check_data c) of
        None \<Rightarrow> Inl (KeyError (check_data c))
      | Some inparr \<Rightarrow>
          let index_expr =
                join '', '' (map (\<lambda>i. ''__i'' @ str_nat i) [0..<length (shape inparr)]);
              index_printf = join '', '' (replicate (length (shape inparr)) ''%d'');
              schedule_type =
                (if storage inparr = GPU_Global \<or> storage inparr = GPU_Shared
                 then GPU_Device else ScheduleType.Default)
          in (case map_ranges_of evaluate (subset (data (check_edge c))) of
                Inl e \<Rightarrow> Inl e
              | Inr ranges \<Rightarrow>
                  Inr [(c,
                    \<lparr>mapped_tasklet.name = ''nancheck'',
                     map_ranges = ranges,
                     inputs = (''__inp'', check_data c, index_expr),
                     code =
                       [''if (__inp != __inp) {'',
                        ''printf('' @ [CHR 0x22] @ ''NaN value found at '' @ check_data c @
                          '', line %d, index '' @ index_printf @ [CHR 0x5C] @ ''n'' @
                          [CHR 0x22] @ '', __LINE__, '' @ index_expr @ '');'',
                        ''}''],
                     schedule = schedule_type,
                     outputs = (''__out'', check_data c, index_expr, - 1)\<rparr>)]))"

text \<open>
  \<^verbatim>\<open>NaN_checker\<close>. \<open>collect_checks\<close> is lines 159 to 181, the list \<^verbatim>\<open>checks\<close>
  made from the pairs that \<^verbatim>\<open>all_nodes_recursive\<close> yields. The result of
  \<open>NaN_checker\<close> is the calls of \<^verbatim>\<open>add_mapped_tasklet\<close> it makes, each with the
  entry of \<^verbatim>\<open>checks\<close> it is made for, and the line it prints at the end.
\<close>

definition collect_checks :: "item list \<Rightarrow> error + nan_check list" where
  "collect_checks all_nodes =
     (let allmaps = filter is_MapEntry_item all_nodes;
          topmaps = filter is_topmap allmaps
      in collect check_map topmaps)"

definition NaN_checker ::
  "(string \<Rightarrow> string) \<Rightarrow> sdfg \<Rightarrow> error + (nan_check \<times> mapped_tasklet) list \<times> string" where
  "NaN_checker evaluate sdfg =
     (case collect_checks (all_nodes_recursive [] sdfg) of
        Inl e \<Rightarrow> Inl e
      | Inr checks \<Rightarrow>
          (case collect (insert_check evaluate) checks of
             Inl e \<Rightarrow> Inl e
           | Inr inserted \<Rightarrow>
               Inr (inserted, ''Added '' @ str_nat (length checks) @ '' NaN checks'')))"

section \<open>The claims' wording\<close>

text \<open>
  The calls a construction with resolved mode \<open>m\<close> is expected to add, in order: the
  target-rank read when there is a communicator, the cache set-up, and the descriptor
  write under the condition of lines 69 to 76.
\<close>

definition expected_calls ::
  "(int \<Rightarrow> 'p \<Rightarrow> string \<Rightarrow> int) \<Rightarrow> 'p CubedSphereCommunicator option \<Rightarrow>
   DaCeOrchestration \<Rightarrow> string \<Rightarrow> 'p build_call list" where
  "expected_calls rtr communicator m root =
     (case communicator of
        None \<Rightarrow> [SetDistributedCaches 0 0]
      | Some c \<Rightarrow>
          [ReadTargetRank (rank c) (partitioner c) (root @ ''/.layout/decomposition.yml''),
           SetDistributedCaches (rank c)
             (rtr (rank c) (partitioner c) (root @ ''/.layout/decomposition.yml''))] @
          (if (m = Build \<or> m = BuildAndRun) \<and> rank c = 0 \<and> comm_Get_size c > 1
           then [WriteDecomposition (partitioner c)] else []))"

text \<open>
  The memory report. The byte size of an array is its element count times its element
  size. An array is referenced in its own scope when some state of the graph that
  owns it has an access node of its name. The arrays of a graph are those of the root
  scope, each paired with the root, and those of the nested scopes.
\<close>

definition size_in_bytes :: "data_desc \<Rightarrow> int" where
  "size_in_bytes arr = total_size arr * dtype_bytes arr"

definition accessed_in_scope :: "sdfg \<Rightarrow> string \<Rightarrow> bool" where
  "accessed_in_scope sd aname = list_ex (\<lambda>st. AccessNode aname \<in> set (nodes st)) (states sd)"

definition root_arrays :: "sdfg \<Rightarrow> (sdfg \<times> string \<times> data_desc) list" where
  "root_arrays g = map (\<lambda>(aname, arr). (g, aname, arr)) (arrays g)"

definition nested_arrays :: "sdfg \<Rightarrow> (sdfg \<times> string \<times> data_desc) list" where
  "nested_arrays g = arrays_recursive_states (states g)"

text \<open>The sum of the byte sizes of the listed arrays that satisfy \<open>P\<close>.\<close>

definition bytes_where ::
  "(sdfg \<Rightarrow> string \<Rightarrow> data_desc \<Rightarrow> bool) \<Rightarrow> (sdfg \<times> string \<times> data_desc) list \<Rightarrow> int" where
  "bytes_where P es =
     sum_list (map (\<lambda>(sd, aname, arr). size_in_bytes arr)
                 (filter (\<lambda>(sd, aname, arr). P sd aname arr) es))"

text \<open>The sum of the byte sizes of all transient arrays of a graph in a storage class.\<close>

definition transient_bytes :: "sdfg \<Rightarrow> StorageType \<Rightarrow> int" where
  "transient_bytes g s =
     bytes_where (\<lambda>sd a d. data_desc.transient d \<and> storage d = s) (arrays_recursive g)"

text \<open>
  The NaN checker. A parallel region is top-level when no map scope encloses its
  entry node, neither in its own state nor around any nested graph it lies in;
  \<open>enclosed\<close> says that a map scope encloses the graph being walked. The edges in
  question are those that leave the exit node of a top-level region, each with the
  graph and the state it belongs to.
\<close>

definition exit_edges :: "state \<Rightarrow> nat \<Rightarrow> edge list" where
  "exit_edges st me = (case exit_node st me of Inl e \<Rightarrow> [] | Inr mx \<Rightarrow> out_edges st mx)"

fun top_level_exit_edges :: "bool \<Rightarrow> sdfg \<Rightarrow> (sdfg \<times> state \<times> edge) list"
  and top_level_exit_edges_states ::
    "bool \<Rightarrow> sdfg \<Rightarrow> state list \<Rightarrow> (sdfg \<times> state \<times> edge) list"
  and top_level_exit_edges_nodes ::
    "bool \<Rightarrow> sdfg \<Rightarrow> state \<Rightarrow> nat \<Rightarrow> node list \<Rightarrow> (sdfg \<times> state \<times> edge) list"
where
  "top_level_exit_edges enclosed (SDFG n arrs sts) =
     top_level_exit_edges_states enclosed (SDFG n arrs sts) sts"
| "top_level_exit_edges_states enclosed sd [] = []"
| "top_level_exit_edges_states enclosed sd (SDFGState ns es sc # sts) =
     top_level_exit_edges_nodes enclosed sd (SDFGState ns es sc) 0 ns @
     top_level_exit_edges_states enclosed sd sts"
| "top_level_exit_edges_nodes enclosed sd st i [] = []"
| "top_level_exit_edges_nodes enclosed sd st i (MapEntry m # ns) =
     (if \<not> enclosed \<and> entry_node st i = None
      then map (\<lambda>e. (sd, st, e)) (exit_edges st i) else []) @
     top_level_exit_edges_nodes enclosed sd st (Suc i) ns"
| "top_level_exit_edges_nodes enclosed sd st i (NestedSDFG g # ns) =
     top_level_exit_edges (enclosed \<or> entry_node st i \<noteq> None) g @
     top_level_exit_edges_nodes enclosed sd st (Suc i) ns"
| "top_level_exit_edges_nodes enclosed sd st i (n # ns) =
     top_level_exit_edges_nodes enclosed sd st (Suc i) ns"

text \<open>
  The destination of an edge when it is an access node: the node's array name. Such an
  edge is excluded when its destination array is a view, when the name of that array
  contains \<^verbatim>\<open>diss_estd\<close>, or when the write is dynamic.
\<close>

definition dst_access :: "state \<Rightarrow> edge \<Rightarrow> string option" where
  "dst_access st e =
     (case node_at st (dst e) of Some (AccessNode aname) \<Rightarrow> Some aname | _ \<Rightarrow> None)"

definition is_view_array :: "sdfg \<Rightarrow> string \<Rightarrow> bool" where
  "is_view_array sd aname =
     (case map_of (arrays sd) aname of Some desc \<Rightarrow> is_View desc | None \<Rightarrow> False)"

definition eligible :: "sdfg \<times> state \<times> edge \<Rightarrow> bool" where
  "eligible x =
     (case x of (sd, st, e) \<Rightarrow>
        (case dst_access st e of
           None \<Rightarrow> False
         | Some aname \<Rightarrow>
             \<not> is_view_array sd aname \<and> \<not> str_in ''diss_estd'' aname
             \<and> \<not> dynamic (memlet_path_head e)))"

text \<open>
  The entry of \<^verbatim>\<open>checks\<close> that belongs to an edge, and whether a map scope encloses a
  graph whose enclosing nested-graph nodes are \<open>anc\<close>.
\<close>

definition check_for :: "sdfg \<times> state \<times> edge \<Rightarrow> nan_check" where
  "check_for x =
     (case x of (sd, st, e) \<Rightarrow>
        \<lparr>check_state = st, check_parent = sd, check_node = dst e,
         check_data = (case dst_access st e of Some aname \<Rightarrow> aname | None \<Rightarrow> []),
         check_edge = e\<rparr>)"

text \<open>
  A memlet whose subset the second loop can turn into map ranges: a range, or a list
  of no indices.
\<close>

definition has_ranges :: "memlet \<Rightarrow> bool" where
  "has_ranges m =
     (case subset m of
        None \<Rightarrow> False
      | Some (Range_subset rs) \<Rightarrow> True
      | Some (Indices_subset xs) \<Rightarrow> xs = [])"

definition edge_has_ranges :: "sdfg \<times> state \<times> edge \<Rightarrow> bool" where
  "edge_has_ranges x = (case x of (sd, st, e) \<Rightarrow> has_ranges (data e))"

definition enclosed_by :: "ancestors \<Rightarrow> bool" where
  "enclosed_by anc = list_ex (\<lambda>(pstate, pnode). entry_node pstate pnode \<noteq> None) anc"

text \<open>
  Graphs as the library builds them: every edge ends at a node of its state, every
  access node names an array of its graph, and every map entry has its exit node.
\<close>

fun valid_node :: "sdfg \<Rightarrow> state \<Rightarrow> nat \<times> node \<Rightarrow> bool" where
  "valid_node sd st (i, MapEntry m) = (\<not> isl (exit_node st i))"
| "valid_node sd st (i, AccessNode aname) = (map_of (arrays sd) aname \<noteq> None)"
| "valid_node sd st (i, n) = True"

definition valid_state :: "sdfg \<Rightarrow> state \<Rightarrow> bool" where
  "valid_state sd st =
     (list_all (\<lambda>e. dst e < length (nodes st)) (edges st)
      \<and> list_all (valid_node sd st) (List.enumerate 0 (nodes st)))"

fun valid_sdfg :: "sdfg \<Rightarrow> bool"
  and valid_states :: "sdfg \<Rightarrow> state list \<Rightarrow> bool"
  and valid_nodes :: "node list \<Rightarrow> bool"
where
  "valid_sdfg (SDFG n arrs sts) = valid_states (SDFG n arrs sts) sts"
| "valid_states sd [] = True"
| "valid_states sd (SDFGState ns es sc # sts) =
     (valid_state sd (SDFGState ns es sc) \<and> valid_nodes ns \<and> valid_states sd sts)"
| "valid_nodes [] = True"
| "valid_nodes (NestedSDFG g # ns) = (valid_sdfg g \<and> valid_nodes ns)"
| "valid_nodes (n # ns) = valid_nodes ns"

text \<open>Device-resident storage: the two GPU storage types.\<close>

definition device_resident :: "StorageType \<Rightarrow> bool" where
  "device_resident s = (s = GPU_Global \<or> s = GPU_Shared)"

section \<open>Concrete inputs\<close>

text \<open>Concrete runs: two environments and a four-rank communicator seen from rank 0.\<close>

definition world0 :: "nat world" where
  "world0 = \<lparr>environ = Map.empty, root_path = ''/cache'', calls = []\<rparr>"

definition world_foo :: "nat world" where
  "world_foo =
     \<lparr>environ = [''FV3_DACEMODE'' \<mapsto> ''foo''], root_path = ''/cache'', calls = []\<rparr>"

definition comm4 :: "nat CubedSphereCommunicator" where
  "comm4 = \<lparr>rank = 0, comm_Get_size = 4, partitioner = 7\<rparr>"

text \<open>
  A clock that advances by 12 between readings, and a build phase that prints a line
  and then raises.
\<close>

definition io0 :: "int io" where
  "io0 = \<lparr>stdout = [], clock = (\<lambda>n. 100 + 12 * int n), ticks = 0\<rparr>"

definition failing_phase :: "int io \<Rightarrow> error option \<times> int io" where
  "failing_phase io = (Some (RuntimeError ''compile failed''), print_line ''compiling'' io)"

text \<open>A graph whose only array is a non-transient array of the root scope.\<close>

definition one_input :: sdfg where
  "one_input =
     SDFG ''one_input''
       [(''inp'', \<lparr>total_size = 16, dtype_bytes = 8, storage = CPU_Heap,
                   data_desc.transient = False, is_View = False, shape = [''16'']\<rparr>)]
       []"

text \<open>
  A graph with a nested graph that owns three arrays in CPU storage: the transient
  \<open>A\<close> of 4 MB, which a state of the nested graph accesses, the transient \<open>B\<close> of 2 MB,
  which none accesses, and the non-transient \<open>C\<close>.
\<close>

definition cpu_array :: "int \<Rightarrow> bool \<Rightarrow> data_desc" where
  "cpu_array n t =
     \<lparr>total_size = n, dtype_bytes = 4, storage = CPU_Heap, data_desc.transient = t,
      is_View = False, shape = [''N'']\<rparr>"

definition inner_graph :: sdfg where
  "inner_graph =
     SDFG ''inner''
       [(''A'', cpu_array 1048576 True), (''B'', cpu_array 524288 True),
        (''C'', cpu_array 256 False)]
       [SDFGState [AccessNode ''A'', Tasklet ''t'', AccessNode ''C''] [] []]"

definition nested_example :: sdfg where
  "nested_example = SDFG ''outer'' [] [SDFGState [NestedSDFG inner_graph] [] []]"

text \<open>
  A graph of one state with two top-level maps; each writes one plain array, \<open>a\<close> in
  default storage and \<open>b\<close> in GPU global storage.
\<close>

definition plain_array :: "StorageType \<Rightarrow> bool \<Rightarrow> data_desc" where
  "plain_array s v =
     \<lparr>total_size = 64, dtype_bytes = 8, storage = s, data_desc.transient = True,
      is_View = v, shape = [''N'', ''M'']\<rparr>"

definition full_write :: memlet where
  "full_write =
     \<lparr>subset = Some (Range_subset
                 [(''0'', ''N - 1'', ''1''), (''0'', ''int_floor(M, 2)'', ''1'')]),
      dynamic = False\<rparr>"

definition dynamic_write :: memlet where
  "dynamic_write =
     \<lparr>subset = Some (Range_subset [(''0'', ''N - 1'', ''1'')]), dynamic = True\<rparr>"

definition plain_edge :: "nat \<Rightarrow> nat \<Rightarrow> edge" where
  "plain_edge a b = \<lparr>src = a, dst = b, data = full_write, memlet_path_head = full_write\<rparr>"

definition two_maps :: sdfg where
  "two_maps =
     SDFG ''two_maps''
       [(''a'', plain_array StorageType.Default False), (''b'', plain_array GPU_Global False)]
       [SDFGState
          [MapEntry ''m0'', Tasklet ''t0'', MapExit ''m0'', AccessNode ''a'',
           MapEntry ''m1'', Tasklet ''t1'', MapExit ''m1'', AccessNode ''b'']
          [plain_edge 0 1, plain_edge 1 2, plain_edge 2 3,
           plain_edge 4 5, plain_edge 5 6, plain_edge 6 7]
          [(1, 0), (2, 0), (5, 4), (6, 4)]]"



text \<open>
  A graph of one state whose top-level map has no output but an empty memlet from its
  exit node to the access node of the plain array \<open>a\<close>.
\<close>

definition empty_memlet :: memlet where
  "empty_memlet = \<lparr>subset = None, dynamic = False\<rparr>"


section \<open>Properties of the configuration\<close>

lemma str_in_sublist: "str_in sub s = sublist sub s"
  by (induction s) (auto simp: sublist_Cons_right)

lemma DaceConfig_init_unresolved:
  "resolve_orchestrate w orchestration = Inl e \<Longrightarrow>
   DaceConfig_init rtr communicator backend orchestration w = (Inl e, w)"
  by (simp add: DaceConfig_init_def)

lemma DaceConfig_init_calls:
  "resolve_orchestrate w orchestration = Inr m \<Longrightarrow>
   calls (snd (DaceConfig_init rtr communicator backend orchestration w)) =
     calls w @ expected_calls rtr communicator m (root_path w)"
  by (cases communicator)
     (auto simp: DaceConfig_init_def expected_calls_def call_def Let_def)

lemma DaceConfig_init_result:
  "resolve_orchestrate w orchestration = Inr m \<Longrightarrow>
   fst (DaceConfig_init rtr communicator backend orchestration w) =
     (if m \<noteq> Python \<and> \<not> str_in ''dace'' backend
      then Inl (RuntimeError (orchestration_error_message backend))
      else Inr ((case communicator of
                   None \<Rightarrow> [''my_rank'' \<mapsto> IntV 0, ''rank_size'' \<mapsto> IntV 1,
                             ''target_rank'' \<mapsto> IntV 0]
                 | Some c \<Rightarrow> [''my_rank'' \<mapsto> IntV (rank c),
                      ''rank_size'' \<mapsto> IntV (comm_Get_size c),
                      ''target_rank'' \<mapsto> IntV (rtr (rank c) (partitioner c)
                         (root_path w @ ''/.layout/decomposition.yml''))])
                (''_orchestrate'' \<mapsto> ModeV m, ''_backend'' \<mapsto> StrV backend)))"
  apply (cases communicator)
   apply (auto simp: DaceConfig_init_def call_def Let_def fun_eq_iff)
  done

text \<open>
  Claim C1. For a resolved mode \<open>m\<close> and any backend, construction raises the
  \<^verbatim>\<open>RuntimeError\<close> whose message ends with the backend exactly when \<open>m\<close> is not
  \<open>Python\<close> and the backend string does not contain \<^verbatim>\<open>dace\<close>; it raises nothing else,
  so with a backend that contains \<^verbatim>\<open>dace\<close> it returns an object for every mode.
\<close>

theorem DaceConfig_init_RuntimeError_iff:
  assumes "resolve_orchestrate w orchestration = Inr m"
  shows "(fst (DaceConfig_init rtr communicator backend orchestration w) =
            Inl (RuntimeError (orchestration_error_message backend)))
          = (m \<noteq> Python \<and> \<not> str_in ''dace'' backend)
       \<and> (\<exists>e. fst (DaceConfig_init rtr communicator backend orchestration w) = Inl e)
          = (m \<noteq> Python \<and> \<not> str_in ''dace'' backend)
       \<and> suffix backend (orchestration_error_message backend)
       \<and> (str_in ''dace'' backend \<longrightarrow>
            (\<exists>self. fst (DaceConfig_init rtr communicator backend orchestration w) = Inr self))"
  using assms
  by (simp add: DaceConfig_init_result orchestration_error_message_def suffix_def)

theorem DaceConfig_init_RuntimeError_iff_witness:
  "fst (DaceConfig_init own_rank None ''gt:cpu_ifirst'' (Some Build) world0) =
     Inl (RuntimeError (orchestration_error_message ''gt:cpu_ifirst''))
   \<and> (\<exists>self. fst (DaceConfig_init own_rank (Some comm4) ''gtc:dace:gpu'' (Some Run) world0)
         = Inr self)"
  using DaceConfig_init_RuntimeError_iff
          [of world0 "Some Build" Build own_rank None "''gt:cpu_ifirst''"]
        DaceConfig_init_RuntimeError_iff
          [of world0 "Some Run" Run own_rank "Some comm4" "''gtc:dace:gpu''"]
  by (simp add: resolve_orchestrate_def)

text \<open>
  Claim C2, as stated, fails: with the mode omitted and \<^verbatim>\<open>FV3_DACEMODE\<close> set to
  \<^verbatim>\<open>foo\<close>, which is none of the four member names, the mode does not resolve to
  \<open>Python\<close>; the enum lookup raises \<^verbatim>\<open>KeyError\<close> and construction fails.
\<close>

theorem resolve_orchestrate_unrecognized_counterexample:
  "environ world_foo ''FV3_DACEMODE'' = Some ''foo''
   \<and> ''foo'' \<notin> {''Python'', ''Build'', ''BuildAndRun'', ''Run''}
   \<and> resolve_orchestrate world_foo None \<noteq> Inr Python
   \<and> DaceConfig_init own_rank None ''gtc:dace'' None world_foo
       = (Inl (KeyError ''foo''), world_foo)"
  by (simp add: world_foo_def resolve_orchestrate_def os_getenv_def
        DaCeOrchestration_getitem_def DaceConfig_init_def)

text \<open>
  Claim C2, amended. With the mode omitted, the mode is resolved from
  \<^verbatim>\<open>FV3_DACEMODE\<close>: unset gives \<open>Python\<close>; a value that is one of the four member
  names gives that member; any other value raises \<^verbatim>\<open>KeyError\<close> for that value,
  and construction fails with it before anything else has happened.
\<close>

theorem resolve_orchestrate_omitted:
  "(environ w ''FV3_DACEMODE'' = None \<longrightarrow> resolve_orchestrate w None = Inr Python)
   \<and> (environ w ''FV3_DACEMODE'' = Some v \<longrightarrow>
        resolve_orchestrate w None =
          (if v = ''Python'' then Inr Python
           else if v = ''Build'' then Inr Build
           else if v = ''BuildAndRun'' then Inr BuildAndRun
           else if v = ''Run'' then Inr Run
           else Inl (KeyError v)))
   \<and> (environ w ''FV3_DACEMODE'' = Some v
        \<and> v \<notin> {''Python'', ''Build'', ''BuildAndRun'', ''Run''} \<longrightarrow>
        DaceConfig_init rtr communicator backend None w = (Inl (KeyError v), w))"
  by (auto simp: resolve_orchestrate_def os_getenv_def DaCeOrchestration_getitem_def
        DaceConfig_init_def)

theorem resolve_orchestrate_omitted_witness:
  "resolve_orchestrate world0 None = Inr Python
   \<and> DaceConfig_init own_rank (Some comm4) ''gtc:dace'' None world_foo
        = (Inl (KeyError ''foo''), world_foo)"
  using resolve_orchestrate_omitted [of world0 undefined own_rank "Some comm4" "''gtc:dace''"]
        resolve_orchestrate_omitted [of world_foo "''foo''" own_rank "Some comm4" "''gtc:dace''"]
  by (simp add: world0_def world_foo_def)

text \<open>
  Claim C3. Construction adds one call of \<^verbatim>\<open>write_decomposition\<close>, on the
  communicator's partitioner, exactly when there is a communicator of rank 0 with more
  than one rank and the resolved mode is \<open>Build\<close> or \<open>BuildAndRun\<close>; in every other
  case (another rank, one rank, no communicator, mode \<open>Python\<close> or \<open>Run\<close>, or a mode
  that does not resolve) it adds none.
\<close>

theorem write_decomposition_exactly_when:
  "filter is_WriteDecomposition
     (calls (snd (DaceConfig_init rtr communicator backend orchestration w))) =
   filter is_WriteDecomposition (calls w) @
     (case resolve_orchestrate w orchestration of
        Inl e \<Rightarrow> []
      | Inr m \<Rightarrow>
          (case communicator of
             None \<Rightarrow> []
           | Some c \<Rightarrow>
               if rank c = 0 \<and> comm_Get_size c > 1 \<and> (m = Build \<or> m = BuildAndRun)
               then [WriteDecomposition (partitioner c)] else []))"
proof (cases "resolve_orchestrate w orchestration")
  case (Inl e)
  then show ?thesis by (simp add: DaceConfig_init_unresolved)
next
  case (Inr m)
  then show ?thesis
    by (cases communicator)
       (auto simp: DaceConfig_init_calls expected_calls_def is_WriteDecomposition_def)
qed

text \<open>
  Claim C9. No construction assigns the attribute \<^verbatim>\<open>_communicator\<close>, so on every
  constructed object \<^verbatim>\<open>get_communicator\<close> raises \<^verbatim>\<open>AttributeError\<close>.
\<close>

theorem get_communicator_AttributeError:
  "fst (DaceConfig_init rtr communicator backend orchestration w) = Inr self \<Longrightarrow>
   get_communicator self = Inl (AttributeError ''_communicator'')"
proof (cases "resolve_orchestrate w orchestration")
  case (Inl e)
  assume "fst (DaceConfig_init rtr communicator backend orchestration w) = Inr self"
  with Inl show ?thesis by (simp add: DaceConfig_init_unresolved)
next
  case (Inr m)
  assume "fst (DaceConfig_init rtr communicator backend orchestration w) = Inr self"
  with Inr have "self ''_communicator'' = None"
    by (cases communicator) (auto simp: DaceConfig_init_result split: if_splits)
  then show ?thesis by (simp add: get_communicator_def getattr_def)
qed

theorem get_communicator_AttributeError_witness:
  "\<exists>self. fst (DaceConfig_init own_rank (Some comm4) ''gtc:dace'' (Some BuildAndRun) world0)
            = Inr self
        \<and> get_communicator self = Inl (AttributeError ''_communicator'')"
proof -
  obtain self where
    s: "fst (DaceConfig_init own_rank (Some comm4) ''gtc:dace'' (Some BuildAndRun) world0)
          = Inr self"
    by (simp add: DaceConfig_init_result resolve_orchestrate_def)
  from get_communicator_AttributeError [OF s] s show ?thesis by blast
qed

text \<open>
  Claim C10. When construction raises the \<^verbatim>\<open>RuntimeError\<close> of lines 79 to 86, the
  world it leaves behind already holds the calls made before the check: the cache
  set-up always, and the descriptor write when the communicator has rank 0, more than
  one rank, and the mode is \<open>Build\<close> or \<open>BuildAndRun\<close>.
\<close>

theorem DaceConfig_init_not_atomic:
  assumes "resolve_orchestrate w orchestration = Inr m"
    and "m \<noteq> Python" and "\<not> str_in ''dace'' backend"
  shows "fst (DaceConfig_init rtr communicator backend orchestration w) =
           Inl (RuntimeError (orchestration_error_message backend))
       \<and> calls (snd (DaceConfig_init rtr communicator backend orchestration w)) =
           calls w @ expected_calls rtr communicator m (root_path w)
       \<and> (\<exists>my target. SetDistributedCaches my target \<in>
             set (calls (snd (DaceConfig_init rtr communicator backend orchestration w))))
       \<and> (communicator = Some c \<and> rank c = 0 \<and> comm_Get_size c > 1
            \<and> (m = Build \<or> m = BuildAndRun) \<longrightarrow>
          WriteDecomposition (partitioner c) \<in>
             set (calls (snd (DaceConfig_init rtr communicator backend orchestration w))))"
proof -
  have "\<exists>my target. SetDistributedCaches my target \<in>
          set (expected_calls rtr communicator m (root_path w))"
    by (cases communicator) (auto simp: expected_calls_def)
  with assms show ?thesis
    by (auto simp: DaceConfig_init_result DaceConfig_init_calls expected_calls_def)
qed

theorem DaceConfig_init_not_atomic_witness:
  "fst (DaceConfig_init own_rank (Some comm4) ''gt:gpu'' (Some Build) world0) =
     Inl (RuntimeError (orchestration_error_message ''gt:gpu''))
   \<and> calls (snd (DaceConfig_init own_rank (Some comm4) ''gt:gpu'' (Some Build) world0)) =
       [ReadTargetRank 0 7 ''/cache/.layout/decomposition.yml'',
        SetDistributedCaches 0 0, WriteDecomposition 7]"
  using DaceConfig_init_not_atomic
          [of world0 "Some Build" Build "''gt:gpu''" own_rank "Some comm4" comm4]
  by (simp add: resolve_orchestrate_def expected_calls_def world0_def comm4_def own_rank_def)

section \<open>Properties of the progress logger\<close>

lemma DaceConfig_init_orchestrate:
  assumes "resolve_orchestrate w orchestration = Inr m"
    and "fst (DaceConfig_init rtr communicator backend orchestration w) = Inr config"
  shows "get_orchestrate config = Inr (ModeV m)"
  using assms
  by (cases communicator)
     (auto simp: DaceConfig_init_result get_orchestrate_def getattr_def split: if_splits)

text \<open>
  Claim C8. The prefix of a logger made for a constructed configuration is the
  configuration's mode in brackets. \<^verbatim>\<open>__enter__\<close> prints the prefix, the label and
  three dots, and keeps the clock reading taken then. Whatever the wrapped phase does,
  and whether it ends normally or raises, the \<^verbatim>\<open>with\<close> statement ends the way the
  phase ended (an exception is raised again, none is added), and the last line printed
  is the entry line followed by the elapsed time, the clock reading at exit minus the
  reading kept at entry, and \<^verbatim>\<open>s.\<close>
\<close>

theorem DaCeProgress_lines:
  fixes float_str :: "'t::minus \<Rightarrow> string"
  assumes "resolve_orchestrate w orchestration = Inr m"
    and "fst (DaceConfig_init rtr communicator backend orchestration w) = Inr config"
  shows "DaCeProgress_init config lbl =
           Inr \<lparr>prefix = ''['' @ DaCeOrchestration_str m @ '']'', label = lbl,
                start = (None :: 't option)\<rparr>
       \<and> DaCeProgress_enter mgr io =
           (mgr\<lparr>start := Some (clock io (ticks io))\<rparr>,
            io\<lparr>stdout := stdout io @ [prefix mgr @ '' '' @ label mgr @ ''...''],
               ticks := Suc (ticks io)\<rparr>)
       \<and> fst (with_DaCeProgress float_str mgr body io) =
           fst (body (snd (DaCeProgress_enter mgr io)))
       \<and> stdout (snd (with_DaCeProgress float_str mgr body io)) =
           stdout (snd (body (snd (DaCeProgress_enter mgr io)))) @
           [prefix mgr @ '' '' @ label mgr @ ''...'' @
            float_str (clock (snd (body (snd (DaCeProgress_enter mgr io))))
                         (ticks (snd (body (snd (DaCeProgress_enter mgr io)))))
                       - clock io (ticks io)) @ ''s.'']"
proof -
  have "get_orchestrate config = Inr (ModeV m)"
    using assms by (rule DaceConfig_init_orchestrate)
  then have "DaCeProgress_init config lbl =
           Inr \<lparr>prefix = ''['' @ DaCeOrchestration_str m @ '']'', label = lbl,
                start = (None :: 't option)\<rparr>"
    by (simp add: DaCeProgress_init_def default_prefix_def)
  moreover have "DaCeProgress_enter mgr io =
           (mgr\<lparr>start := Some (clock io (ticks io))\<rparr>,
            io\<lparr>stdout := stdout io @ [prefix mgr @ '' '' @ label mgr @ ''...''],
               ticks := Suc (ticks io)\<rparr>)"
    by (simp add: DaCeProgress_enter_def log_def print_line_def time_time_def)
  moreover have "fst (with_DaCeProgress float_str mgr body io) =
           fst (body (snd (DaCeProgress_enter mgr io)))"
    by (auto simp: with_DaCeProgress_def DaCeProgress_enter_def DaCeProgress_exit_def
          log_def print_line_def time_time_def Let_def split: prod.splits option.splits)
  moreover have "stdout (snd (with_DaCeProgress float_str mgr body io)) =
           stdout (snd (body (snd (DaCeProgress_enter mgr io)))) @
           [prefix mgr @ '' '' @ label mgr @ ''...'' @
            float_str (clock (snd (body (snd (DaCeProgress_enter mgr io))))
                         (ticks (snd (body (snd (DaCeProgress_enter mgr io)))))
                       - clock io (ticks io)) @ ''s.'']"
    by (auto simp: with_DaCeProgress_def DaCeProgress_enter_def DaCeProgress_exit_def
          log_def print_line_def time_time_def Let_def split: prod.splits option.splits)
  ultimately show ?thesis by blast
qed

theorem DaCeProgress_lines_witness:
  "\<exists>config mgr.
     fst (DaceConfig_init own_rank None ''gtc:dace'' (Some Build) world0) = Inr config
     \<and> DaCeProgress_init config ''Build SDFG'' = Inr mgr
     \<and> with_DaCeProgress str_int mgr failing_phase io0 =
         (Some (RuntimeError ''compile failed''),
          \<lparr>stdout = [''[DaCeOrchestration.Build] Build SDFG...'', ''compiling'',
                     ''[DaCeOrchestration.Build] Build SDFG...12s.''],
           clock = clock io0, ticks = 2\<rparr>)"
proof -
  obtain config where
    c: "fst (DaceConfig_init own_rank None ''gtc:dace'' (Some Build) world0) = Inr config"
    by (simp add: DaceConfig_init_result resolve_orchestrate_def)
  have r: "resolve_orchestrate world0 (Some Build) = Inr Build"
    by (simp add: resolve_orchestrate_def)
  define mgr :: "int DaCeProgress" where
    "mgr = \<lparr>prefix = ''['' @ DaCeOrchestration_str Build @ '']'', label = ''Build SDFG'',
            start = None\<rparr>"
  note t = DaCeProgress_lines [OF r c, of "''Build SDFG''" mgr io0 str_int failing_phase, folded mgr_def]
  have "with_DaCeProgress str_int mgr failing_phase io0 =
         (Some (RuntimeError ''compile failed''),
          \<lparr>stdout = [''[DaCeOrchestration.Build] Build SDFG...'', ''compiling'',
                     ''[DaCeOrchestration.Build] Build SDFG...12s.''],
           clock = clock io0, ticks = 2\<rparr>)"
    by (simp add: with_DaCeProgress_def DaCeProgress_enter_def DaCeProgress_exit_def
          log_def print_line_def time_time_def Let_def mgr_def io0_def failing_phase_def
          str_int_def digit_char_def)
  with t c show ?thesis by blast
qed

section \<open>Properties of the memory report\<close>

lemma arrays_recursive_size:
  "(sd, a, d) \<in> set (arrays_recursive g) \<Longrightarrow> size sd \<le> size g"
  "(sd, a, d) \<in> set (arrays_recursive_states sts) \<Longrightarrow> size sd < size_list size sts"
  "(sd, a, d) \<in> set (arrays_recursive_nodes ns) \<Longrightarrow> size sd < size_list size ns"
  by (induction g and sts and ns
      rule: arrays_recursive_arrays_recursive_states_arrays_recursive_nodes.induct) auto

lemma nested_arrays_not_root:
  "(sd, a, d) \<in> set (nested_arrays g) \<Longrightarrow> sd \<noteq> g"
  using arrays_recursive_size(2) [of sd a d "states g"]
  by (cases g) (auto simp: nested_arrays_def)

lemma arrays_recursive_split: "arrays_recursive g = root_arrays g @ nested_arrays g"
  by (cases g) (simp add: root_arrays_def nested_arrays_def)

lemma all_nodes_recursive_parent_size:
  "NodeItem j n s p c \<in> set (all_nodes_recursive anc g) \<Longrightarrow> size p \<le> size g"
  "NodeItem j n s p c \<in> set (all_nodes_recursive_states anc sd sts) \<Longrightarrow>
     p = sd \<or> size p < size_list size sts"
  "NodeItem j n s p c \<in> set (all_nodes_recursive_nodes anc sd st i ns) \<Longrightarrow>
     p = sd \<or> size p < size_list size ns"
  by (induction anc g and anc sd sts and anc sd st i ns
      rule: all_nodes_recursive_all_nodes_recursive_states_all_nodes_recursive_nodes.induct)
     auto

lemma is_ref_item_smaller:
  assumes "size g < size sd"
  shows "\<not> list_ex (is_ref_item sd a) (all_nodes_recursive anc g)"
proof
  assume "list_ex (is_ref_item sd a) (all_nodes_recursive anc g)"
  then obtain x where x: "x \<in> set (all_nodes_recursive anc g)" "is_ref_item sd a x"
    by (auto simp: list_ex_iff)
  from x(2) obtain j n s c where "x = NodeItem j n s sd c"
    by (cases x) auto
  with x(1) have "size sd \<le> size g"
    using all_nodes_recursive_parent_size(1) by blast
  with assms show False by simp
qed

lemma is_ref_nodes:
  "size_list size ns < size sd \<Longrightarrow>
   list_ex (is_ref_item sd a) (all_nodes_recursive_nodes anc sd st i ns)
     = (AccessNode a \<in> set ns)"
proof (induction ns arbitrary: i)
  case Nil
  then show ?case by simp
next
  case (Cons n ns)
  then have IH: "list_ex (is_ref_item sd a) (all_nodes_recursive_nodes anc sd st (Suc i) ns)
     = (AccessNode a \<in> set ns)"
    by simp
  show ?case
  proof (cases n)
    case (NestedSDFG g)
    with Cons.prems have "size g < size sd" by simp
    then have "\<not> list_ex (is_ref_item sd a) (all_nodes_recursive ((st, i) # anc) g)"
      by (rule is_ref_item_smaller)
    with NestedSDFG IH show ?thesis by simp
  qed (use IH in auto)
qed

lemma is_ref_states:
  "size_list size sts < size sd \<Longrightarrow>
   list_ex (is_ref_item sd a) (all_nodes_recursive_states anc sd sts)
     = list_ex (\<lambda>st. AccessNode a \<in> set (nodes st)) sts"
proof (induction sts)
  case Nil
  then show ?case by simp
next
  case (Cons st sts)
  obtain ns es sc where st: "st = SDFGState ns es sc" by (cases st)
  from Cons.prems st have "size_list size ns < size sd" by simp
  then have "list_ex (is_ref_item sd a) (all_nodes_recursive_nodes anc sd st 0 ns)
     = (AccessNode a \<in> set ns)"
    by (rule is_ref_nodes)
  moreover from Cons have "list_ex (is_ref_item sd a) (all_nodes_recursive_states anc sd sts)
     = list_ex (\<lambda>st. AccessNode a \<in> set (nodes st)) sts"
    by simp
  ultimately show ?case using st by simp
qed

lemma is_ref_accessed_in_scope: "is_ref sd a = accessed_in_scope sd a"
  by (cases sd) (simp add: is_ref_def accessed_in_scope_def is_ref_states)

lemma count_memory_step_buckets:
  "referenced_in_bytes (count_memory_step g al (sd, a, d) s) =
     referenced_in_bytes (al s) +
     (if storage d = s \<and> (sd = g \<or> data_desc.transient d) \<and> is_ref sd a
      then size_in_bytes d else 0)"
  "unreferenced_in_bytes (count_memory_step g al (sd, a, d) s) =
     unreferenced_in_bytes (al s) +
     (if storage d = s \<and> (sd = g \<or> data_desc.transient d) \<and> \<not> is_ref sd a
      then size_in_bytes d else 0)"
  "top_level_in_bytes (count_memory_step g al (sd, a, d) s) =
     top_level_in_bytes (al s) + (if storage d = s \<and> sd = g then size_in_bytes d else 0)"
  by (auto simp: count_memory_step_def Let_def append_detail_def add_referenced_def
        add_unreferenced_def add_top_level_def size_in_bytes_def)

lemma bytes_where_Nil [simp]: "bytes_where P [] = 0"
  by (simp add: bytes_where_def)

lemma bytes_where_Cons [simp]:
  "bytes_where P ((sd, a, d) # es) =
     (if P sd a d then size_in_bytes d else 0) + bytes_where P es"
  by (simp add: bytes_where_def)

lemma bytes_where_append [simp]:
  "bytes_where P (xs @ ys) = bytes_where P xs + bytes_where P ys"
  by (simp add: bytes_where_def)

lemma bytes_where_cong:
  "(\<And>sd a d. (sd, a, d) \<in> set es \<Longrightarrow> P sd a d = Q sd a d) \<Longrightarrow>
   bytes_where P es = bytes_where Q es"
  by (induction es) auto

lemma foldl_count_memory_step:
  "referenced_in_bytes (foldl (count_memory_step g) al es s) =
     referenced_in_bytes (al s) +
     bytes_where (\<lambda>sd a d. storage d = s \<and> (sd = g \<or> data_desc.transient d)
                    \<and> is_ref sd a) es"
  "unreferenced_in_bytes (foldl (count_memory_step g) al es s) =
     unreferenced_in_bytes (al s) +
     bytes_where (\<lambda>sd a d. storage d = s \<and> (sd = g \<or> data_desc.transient d)
                    \<and> \<not> is_ref sd a) es"
  "top_level_in_bytes (foldl (count_memory_step g) al es s) =
     top_level_in_bytes (al s) + bytes_where (\<lambda>sd a d. storage d = s \<and> sd = g) es"
proof (induction es arbitrary: al)
  case Nil
  {
    case 1 show ?case by simp
  next
    case 2 show ?case by simp
  next
    case 3 show ?case by simp
  }
next
  case (Cons e es)
  obtain sd a d where e: "e = (sd, a, d)" by (cases e)
  {
    case 1 show ?case
      by (simp add: e Cons.IH(1) count_memory_step_buckets(1))
  next
    case 2 show ?case
      by (simp add: e Cons.IH(2) count_memory_step_buckets(2))
  next
    case 3 show ?case
      by (simp add: e Cons.IH(3) count_memory_step_buckets(3))
  }
qed

lemma bytes_where_split:
  "bytes_where (\<lambda>sd a d. P sd a d \<and> R sd a d) es
     + bytes_where (\<lambda>sd a d. P sd a d \<and> \<not> R sd a d) es = bytes_where P es"
  by (induction es) auto

lemma count_memory_allocations_fold:
  "referenced_in_bytes (count_memory_allocations g s) =
     bytes_where (\<lambda>sd a d. (storage d = s \<and> (sd = g \<or> data_desc.transient d))
                    \<and> is_ref sd a) (arrays_recursive g)"
  "unreferenced_in_bytes (count_memory_allocations g s) =
     bytes_where (\<lambda>sd a d. (storage d = s \<and> (sd = g \<or> data_desc.transient d))
                    \<and> \<not> is_ref sd a) (arrays_recursive g)"
  "top_level_in_bytes (count_memory_allocations g s) =
     bytes_where (\<lambda>sd a d. storage d = s \<and> sd = g) (arrays_recursive g)"
  by (simp_all add: count_memory_allocations_def foldl_count_memory_step
        empty_allocations_def)

lemma root_arrays_root: "(sd, a, d) \<in> set (root_arrays g) \<Longrightarrow> sd = g"
  by (auto simp: root_arrays_def)

text \<open>
  Claim C4, as stated, fails: for the graph \<open>one_input\<close> the referenced and the
  unreferenced bytes of CPU heap storage add up to the 128 bytes of its non-transient
  root array, while the graph has no transient array at all.
\<close>

theorem count_memory_additivity_counterexample:
  "referenced_in_bytes (count_memory_allocations one_input CPU_Heap)
     + unreferenced_in_bytes (count_memory_allocations one_input CPU_Heap) = 128
   \<and> transient_bytes one_input CPU_Heap = 0
   \<and> referenced_in_bytes (count_memory_allocations one_input CPU_Heap)
       + unreferenced_in_bytes (count_memory_allocations one_input CPU_Heap)
       \<noteq> transient_bytes one_input CPU_Heap"
  by (simp add: count_memory_allocations_fold transient_bytes_def one_input_def
        is_ref_def size_in_bytes_def)

text \<open>
  Claim C4, amended. For every graph and storage class, the referenced plus the
  unreferenced bytes are the byte sizes of all transient arrays of that class plus
  those of the non-transient arrays of that class in the root scope.
\<close>

theorem count_memory_additivity_amended:
  "referenced_in_bytes (count_memory_allocations g s)
     + unreferenced_in_bytes (count_memory_allocations g s)
   = transient_bytes g s
     + bytes_where (\<lambda>sd a d. \<not> data_desc.transient d \<and> storage d = s) (root_arrays g)"
proof -
  have "referenced_in_bytes (count_memory_allocations g s)
          + unreferenced_in_bytes (count_memory_allocations g s)
        = bytes_where (\<lambda>sd a d. storage d = s \<and> (sd = g \<or> data_desc.transient d))
            (arrays_recursive g)"
    by (simp only: count_memory_allocations_fold bytes_where_split)
  also have "\<dots> = bytes_where (\<lambda>sd a d. storage d = s) (root_arrays g)
        + bytes_where (\<lambda>sd a d. data_desc.transient d \<and> storage d = s) (nested_arrays g)"
  proof -
    have "bytes_where (\<lambda>sd a d. storage d = s \<and> (sd = g \<or> data_desc.transient d))
            (root_arrays g) = bytes_where (\<lambda>sd a d. storage d = s) (root_arrays g)"
      by (rule bytes_where_cong) (auto dest: root_arrays_root)
    moreover have "bytes_where (\<lambda>sd a d. storage d = s \<and> (sd = g \<or> data_desc.transient d))
            (nested_arrays g)
         = bytes_where (\<lambda>sd a d. data_desc.transient d \<and> storage d = s) (nested_arrays g)"
      by (rule bytes_where_cong) (auto dest: nested_arrays_not_root)
    ultimately show ?thesis by (simp add: arrays_recursive_split)
  qed
  also have "bytes_where (\<lambda>sd a d. storage d = s) (root_arrays g)
      = bytes_where (\<lambda>sd a d. data_desc.transient d \<and> storage d = s) (root_arrays g)
        + bytes_where (\<lambda>sd a d. \<not> data_desc.transient d \<and> storage d = s) (root_arrays g)"
    using bytes_where_split [of "\<lambda>sd a d. storage d = s" "\<lambda>sd a d. data_desc.transient d"
        "root_arrays g"]
    by (simp add: conj_commute)
  finally show ?thesis
    by (simp add: transient_bytes_def arrays_recursive_split)
qed

text \<open>
  Claim C5. For every graph and storage class: a transient array of a nested scope
  adds its byte size to the referenced bytes of its class when a state of its own
  scope has an access node of its name, and to the unreferenced bytes otherwise; a
  non-transient array of a nested scope adds to neither, nor to the top-level bytes.
  The arrays of the root scope make up the rest of each bucket.
\<close>

theorem count_memory_buckets:
  "referenced_in_bytes (count_memory_allocations g s) =
     bytes_where (\<lambda>sd a d. storage d = s \<and> accessed_in_scope sd a) (root_arrays g)
     + bytes_where (\<lambda>sd a d. data_desc.transient d \<and> storage d = s
                      \<and> accessed_in_scope sd a) (nested_arrays g)
   \<and> unreferenced_in_bytes (count_memory_allocations g s) =
     bytes_where (\<lambda>sd a d. storage d = s \<and> \<not> accessed_in_scope sd a) (root_arrays g)
     + bytes_where (\<lambda>sd a d. data_desc.transient d \<and> storage d = s
                      \<and> \<not> accessed_in_scope sd a) (nested_arrays g)
   \<and> top_level_in_bytes (count_memory_allocations g s) =
     bytes_where (\<lambda>sd a d. storage d = s) (root_arrays g)"
proof (intro conjI)
  show "referenced_in_bytes (count_memory_allocations g s) =
     bytes_where (\<lambda>sd a d. storage d = s \<and> accessed_in_scope sd a) (root_arrays g)
     + bytes_where (\<lambda>sd a d. data_desc.transient d \<and> storage d = s
                      \<and> accessed_in_scope sd a) (nested_arrays g)"
  proof -
    have "bytes_where (\<lambda>sd a d. (storage d = s \<and> (sd = g \<or> data_desc.transient d))
                    \<and> is_ref sd a) (root_arrays g)
        = bytes_where (\<lambda>sd a d. storage d = s \<and> accessed_in_scope sd a) (root_arrays g)"
      by (rule bytes_where_cong) (auto dest: root_arrays_root simp: is_ref_accessed_in_scope)
    moreover have "bytes_where (\<lambda>sd a d. (storage d = s \<and> (sd = g \<or> data_desc.transient d))
                    \<and> is_ref sd a) (nested_arrays g)
        = bytes_where (\<lambda>sd a d. data_desc.transient d \<and> storage d = s
                      \<and> accessed_in_scope sd a) (nested_arrays g)"
      by (rule bytes_where_cong)
         (auto dest: nested_arrays_not_root simp: is_ref_accessed_in_scope)
    ultimately show ?thesis
      by (simp add: count_memory_allocations_fold(1) arrays_recursive_split)
  qed
  show "unreferenced_in_bytes (count_memory_allocations g s) =
     bytes_where (\<lambda>sd a d. storage d = s \<and> \<not> accessed_in_scope sd a) (root_arrays g)
     + bytes_where (\<lambda>sd a d. data_desc.transient d \<and> storage d = s
                      \<and> \<not> accessed_in_scope sd a) (nested_arrays g)"
  proof -
    have "bytes_where (\<lambda>sd a d. (storage d = s \<and> (sd = g \<or> data_desc.transient d))
                    \<and> \<not> is_ref sd a) (root_arrays g)
        = bytes_where (\<lambda>sd a d. storage d = s \<and> \<not> accessed_in_scope sd a) (root_arrays g)"
      by (rule bytes_where_cong) (auto dest: root_arrays_root simp: is_ref_accessed_in_scope)
    moreover have "bytes_where (\<lambda>sd a d. (storage d = s \<and> (sd = g \<or> data_desc.transient d))
                    \<and> \<not> is_ref sd a) (nested_arrays g)
        = bytes_where (\<lambda>sd a d. data_desc.transient d \<and> storage d = s
                      \<and> \<not> accessed_in_scope sd a) (nested_arrays g)"
      by (rule bytes_where_cong)
         (auto dest: nested_arrays_not_root simp: is_ref_accessed_in_scope)
    ultimately show ?thesis
      by (simp add: count_memory_allocations_fold(2) arrays_recursive_split)
  qed
  show "top_level_in_bytes (count_memory_allocations g s) =
     bytes_where (\<lambda>sd a d. storage d = s) (root_arrays g)"
  proof -
    have "bytes_where (\<lambda>sd a d. storage d = s \<and> sd = g) (root_arrays g)
        = bytes_where (\<lambda>sd a d. storage d = s) (root_arrays g)"
      by (rule bytes_where_cong) (auto dest: root_arrays_root)
    moreover have "bytes_where (\<lambda>sd a d. storage d = s \<and> sd = g) (nested_arrays g) = 0"
      using bytes_where_cong [of "nested_arrays g" "\<lambda>sd a d. storage d = s \<and> sd = g"
          "\<lambda>sd a d. False"]
      by (auto dest: nested_arrays_not_root simp: bytes_where_def)
    ultimately show ?thesis
      by (simp add: count_memory_allocations_fold(3) arrays_recursive_split)
  qed
qed

theorem count_memory_buckets_witness:
  "referenced_in_bytes (count_memory_allocations nested_example CPU_Heap) = 4 * 1048576
   \<and> unreferenced_in_bytes (count_memory_allocations nested_example CPU_Heap) = 2 * 1048576
   \<and> top_level_in_bytes (count_memory_allocations nested_example CPU_Heap) = 0"
  using count_memory_buckets [of nested_example CPU_Heap]
  by (simp add: nested_example_def inner_graph_def root_arrays_def nested_arrays_def
        accessed_in_scope_def cpu_array_def size_in_bytes_def)

section \<open>Properties of the NaN checker\<close>

lemma collect_append:
  "collect f (xs @ ys) =
     (case collect f xs of
        Inl e \<Rightarrow> Inl e
      | Inr a \<Rightarrow> (case collect f ys of Inl e \<Rightarrow> Inl e | Inr b \<Rightarrow> Inr (a @ b)))"
  by (induction xs) (auto split: sum.splits)

lemma collect_member:
  "collect f xs = Inr ys \<Longrightarrow> y \<in> set ys \<Longrightarrow> \<exists>x \<in> set xs. \<exists>zs. f x = Inr zs \<and> y \<in> set zs"
  by (induction xs arbitrary: ys) (auto split: sum.splits)

lemma get_parent_map_None:
  "(get_parent_map st (Some i) anc = None) = (entry_node st i = None \<and> \<not> enclosed_by anc)"
proof (induction anc arbitrary: st i)
  case Nil
  show ?case by (simp add: enclosed_by_def split: option.splits)
next
  case (Cons a anc)
  obtain pst pn where a: "a = (pst, pn)" by (cases a)
  have "enclosed_by (a # anc) = (entry_node pst pn \<noteq> None \<or> enclosed_by anc)"
    by (simp add: enclosed_by_def a)
  with Cons [of pst pn] show ?case
    by (auto simp: a split: option.splits)
qed

lemma enclosed_by_Cons:
  "enclosed_by ((st, i) # anc) = (enclosed_by anc \<or> entry_node st i \<noteq> None)"
  by (auto simp: enclosed_by_def)

lemma collect_checks_Nil [simp]: "collect_checks [] = Inr []"
  by (simp add: collect_checks_def)

lemma collect_checks_append:
  "collect_checks (xs @ ys) =
     (case collect_checks xs of
        Inl e \<Rightarrow> Inl e
      | Inr a \<Rightarrow> (case collect_checks ys of Inl e \<Rightarrow> Inl e | Inr b \<Rightarrow> Inr (a @ b)))"
  unfolding collect_checks_def Let_def by (simp add: collect_append del: filter_filter)

lemma collect_checks_StateItem [simp]:
  "collect_checks (StateItem st sd # xs) = collect_checks xs"
  by (simp add: collect_checks_def)

lemma collect_checks_other [simp]:
  "\<not> is_MapEntry_item x \<Longrightarrow> collect_checks (x # xs) = collect_checks xs"
  by (simp add: collect_checks_def)

lemma valid_state_edge:
  "valid_state sd st \<Longrightarrow> e \<in> set (edges st) \<Longrightarrow> dst e < length (nodes st)"
  by (auto simp: valid_state_def list_all_iff)

lemma valid_state_node:
  "valid_state sd st \<Longrightarrow> i < length (nodes st) \<Longrightarrow> valid_node sd st (i, nodes st ! i)"
  by (auto simp: valid_state_def list_all_iff in_set_enumerate_eq)

lemma check_out_edge_valid:
  assumes "valid_state sd st" and "e \<in> set (edges st)"
  shows "check_out_edge sd st e =
           Inr (if eligible (sd, st, e) then [check_for (sd, st, e)] else [])"
proof -
  from assms have r: "dst e < length (nodes st)" by (rule valid_state_edge)
  with assms(1) have v: "valid_node sd st (dst e, nodes st ! dst e)"
    by (rule valid_state_node)
  show ?thesis
  proof (cases "nodes st ! dst e")
    case (AccessNode a)
    with v obtain desc where "map_of (arrays sd) a = Some desc" by auto
    with AccessNode r show ?thesis
      by (simp add: check_out_edge_def node_at_def eligible_def dst_access_def
            is_view_array_def check_for_def)
  qed (use r in \<open>simp_all add: check_out_edge_def node_at_def eligible_def dst_access_def\<close>)
qed

lemma collect_check_out_edge:
  assumes "valid_state sd st" and "set es \<subseteq> set (edges st)"
  shows "collect (check_out_edge sd st) es =
           Inr (map check_for (filter eligible (map (\<lambda>e. (sd, st, e)) es)))"
  using assms(2)
proof (induction es)
  case Nil
  show ?case by simp
next
  case (Cons e es)
  then have "e \<in> set (edges st)" by simp
  with assms(1) have "check_out_edge sd st e =
           Inr (if eligible (sd, st, e) then [check_for (sd, st, e)] else [])"
    by (rule check_out_edge_valid)
  with Cons show ?case by simp
qed

lemma check_map_valid:
  assumes "valid_state sd st" and "valid_node sd st (i, MapEntry m)"
  shows "check_map (NodeItem i (MapEntry m) st sd anc) =
           Inr (map check_for (filter eligible (map (\<lambda>e. (sd, st, e)) (exit_edges st i))))"
proof -
  from assms(2) obtain mx where mx: "exit_node st i = Inr mx"
    by (cases "exit_node st i") auto
  have "set (out_edges st mx) \<subseteq> set (edges st)"
    by (auto simp: out_edges_def)
  with assms(1) have "collect (check_out_edge sd st) (out_edges st mx) =
           Inr (map check_for (filter eligible (map (\<lambda>e. (sd, st, e)) (out_edges st mx))))"
    by (rule collect_check_out_edge)
  with mx show ?thesis by (simp add: exit_edges_def)
qed

lemma collect_checks_MapEntry:
  assumes "valid_state sd st" and "valid_node sd st (i, MapEntry m)"
  shows "collect_checks (NodeItem i (MapEntry m) st sd anc # xs) =
     (case collect_checks xs of
        Inl e \<Rightarrow> Inl e
      | Inr b \<Rightarrow>
          Inr ((if \<not> enclosed_by anc \<and> entry_node st i = None
                then map check_for
                       (filter eligible (map (\<lambda>e. (sd, st, e)) (exit_edges st i)))
                else []) @ b))"
proof (cases "\<not> enclosed_by anc \<and> entry_node st i = None")
  case True
  then have "is_topmap (NodeItem i (MapEntry m) st sd anc)"
    by (simp add: get_parent_map_None del: get_parent_map.simps)
  then have "collect_checks (NodeItem i (MapEntry m) st sd anc # xs) =
     (case check_map (NodeItem i (MapEntry m) st sd anc) of
        Inl e \<Rightarrow> Inl e
      | Inr a \<Rightarrow> (case collect_checks xs of Inl e \<Rightarrow> Inl e | Inr b \<Rightarrow> Inr (a @ b)))"
    unfolding collect_checks_def Let_def by (simp del: filter_filter is_topmap.simps check_map.simps)
  with True show ?thesis
    by (simp add: check_map_valid [OF assms] del: check_map.simps)
next
  case False
  then have "\<not> is_topmap (NodeItem i (MapEntry m) st sd anc)"
    by (auto simp: get_parent_map_None simp del: get_parent_map.simps)
  then have "collect_checks (NodeItem i (MapEntry m) st sd anc # xs) = collect_checks xs"
    unfolding collect_checks_def Let_def by (simp del: filter_filter is_topmap.simps)
  moreover from False have
    "(if \<not> enclosed_by anc \<and> entry_node st i = None
      then map check_for (filter eligible (map (\<lambda>e. (sd, st, e)) (exit_edges st i)))
      else []) = []"
    by (rule if_not_P)
  ultimately show ?thesis
    by (simp only: append_Nil split: sum.split) simp
qed

lemma drop_Cons_nth:
  "drop i xs = y # ys \<Longrightarrow> i < length xs \<and> xs ! i = y \<and> drop (Suc i) xs = ys"
  by (metis Cons_nth_drop_Suc drop_all list.distinct(1) list.inject not_le)

lemma collect_checks_enumeration:
  "valid_sdfg g \<Longrightarrow>
     collect_checks (all_nodes_recursive anc g) =
       Inr (map check_for (filter eligible (top_level_exit_edges (enclosed_by anc) g)))"
  "valid_states sd sts \<Longrightarrow>
     collect_checks (all_nodes_recursive_states anc sd sts) =
       Inr (map check_for
              (filter eligible (top_level_exit_edges_states (enclosed_by anc) sd sts)))"
  "valid_state sd st \<Longrightarrow> valid_nodes ns \<Longrightarrow> drop i (nodes st) = ns \<Longrightarrow>
     collect_checks (all_nodes_recursive_nodes anc sd st i ns) =
       Inr (map check_for
              (filter eligible (top_level_exit_edges_nodes (enclosed_by anc) sd st i ns)))"
proof (induction anc g and anc sd sts and anc sd st i ns
      rule: all_nodes_recursive_all_nodes_recursive_states_all_nodes_recursive_nodes.induct
        [case_names 1 2 3 4 5 access entry exit tasklet])
  case (1 anc n arrs sts)
  then show ?case by simp
next
  case (2 anc sd)
  show ?case by simp
next
  case (3 anc sd ns es sc sts)
  then show ?case by (simp add: collect_checks_append)
next
  case (4 anc sd st i)
  show ?case by simp
next
  case (5 anc sd st i g ns)
  from 5(5) have d: "drop (Suc i) (nodes st) = ns"
    by (simp add: drop_Cons_nth)
  from 5(4) have v: "valid_sdfg g" "valid_nodes ns" by simp_all
  from 5(1) [OF v(1)] 5(2) [OF 5(3) v(2) d] show ?case
    by (simp add: collect_checks_append enclosed_by_Cons)
next
  case (access anc sd st i v ns)
  from access(4) have d: "drop (Suc i) (nodes st) = ns"
    by (simp add: drop_Cons_nth)
  from access(3) have "valid_nodes ns" by simp
  from access(1) [OF access(2) this d] show ?case by simp
next
  case (entry anc sd st i m ns)
  from entry(4) have d: "drop (Suc i) (nodes st) = ns" and n: "i < length (nodes st)"
    and e: "nodes st ! i = MapEntry m"
    by (simp_all add: drop_Cons_nth)
  from entry(3) have "valid_nodes ns" by simp
  note IH = entry(1) [OF entry(2) this d]
  from valid_state_node [OF entry(2) n] e have "valid_node sd st (i, MapEntry m)" by simp
  from collect_checks_MapEntry [OF entry(2) this] IH show ?case
    by simp
next
  case (exit anc sd st i v ns)
  from exit(4) have d: "drop (Suc i) (nodes st) = ns"
    by (simp add: drop_Cons_nth)
  from exit(3) have "valid_nodes ns" by simp
  from exit(1) [OF exit(2) this d] show ?case by simp
next
  case (tasklet anc sd st i v ns)
  from tasklet(4) have d: "drop (Suc i) (nodes st) = ns"
    by (simp add: drop_Cons_nth)
  from tasklet(3) have "valid_nodes ns" by simp
  from tasklet(1) [OF tasklet(2) this d] show ?case by simp
qed


lemma check_out_edge_Inr:
  "check_out_edge sd st e = Inr zs \<Longrightarrow>
   zs = (if eligible (sd, st, e) then [check_for (sd, st, e)] else [])"
  by (auto simp: check_out_edge_def eligible_def dst_access_def is_view_array_def
        check_for_def split: option.splits node.splits if_splits)

lemma collect_check_out_edge_Inr:
  "collect (check_out_edge sd st) es = Inr zs \<Longrightarrow>
   zs = map check_for (filter eligible (map (\<lambda>e. (sd, st, e)) es))"
proof (induction es arbitrary: zs)
  case Nil
  then show ?case by simp
next
  case (Cons e es)
  from Cons.prems obtain a b where
    a: "check_out_edge sd st e = Inr a" and b: "collect (check_out_edge sd st) es = Inr b"
    and zs: "zs = a @ b"
    by (auto split: sum.splits)
  from check_out_edge_Inr [OF a] Cons.IH [OF b] zs show ?case by simp
qed

lemma check_map_Inr:
  assumes "check_map (NodeItem i n st sd anc) = Inr zs"
  shows "zs = map check_for (filter eligible (map (\<lambda>e. (sd, st, e)) (exit_edges st i)))"
proof -
  from assms obtain mx where mx: "exit_node st i = Inr mx"
    and c: "collect (check_out_edge sd st) (out_edges st mx) = Inr zs"
    by (auto split: sum.splits)
  from collect_check_out_edge_Inr [OF c] mx show ?thesis
    by (simp add: exit_edges_def)
qed

lemma collect_checks_append_Inr:
  assumes "collect_checks (xs @ ys) = Inr cs"
  shows "\<exists>a b. collect_checks xs = Inr a \<and> collect_checks ys = Inr b \<and> cs = a @ b"
  using assms by (auto simp: collect_checks_append split: sum.splits)

lemma collect_checks_MapEntry_Inr:
  assumes "collect_checks (NodeItem i (MapEntry m) st sd anc # xs) = Inr cs"
  shows "\<exists>b. collect_checks xs = Inr b \<and>
           cs = (if \<not> enclosed_by anc \<and> entry_node st i = None
                 then map check_for
                        (filter eligible (map (\<lambda>e. (sd, st, e)) (exit_edges st i)))
                 else []) @ b"
proof (cases "\<not> enclosed_by anc \<and> entry_node st i = None")
  case True
  then have "is_topmap (NodeItem i (MapEntry m) st sd anc)"
    by (simp add: get_parent_map_None del: get_parent_map.simps)
  then have "collect_checks (NodeItem i (MapEntry m) st sd anc # xs) =
     (case check_map (NodeItem i (MapEntry m) st sd anc) of
        Inl e \<Rightarrow> Inl e
      | Inr a \<Rightarrow> (case collect_checks xs of Inl e \<Rightarrow> Inl e | Inr b \<Rightarrow> Inr (a @ b)))"
    unfolding collect_checks_def Let_def
    by (simp del: filter_filter is_topmap.simps check_map.simps)
  with assms obtain a b where
    a: "check_map (NodeItem i (MapEntry m) st sd anc) = Inr a"
    and b: "collect_checks xs = Inr b" and cs: "cs = a @ b"
    by (auto split: sum.splits simp del: check_map.simps)
  from check_map_Inr [OF a] b cs True show ?thesis by simp
next
  case False
  then have "\<not> is_topmap (NodeItem i (MapEntry m) st sd anc)"
    by (auto simp: get_parent_map_None simp del: get_parent_map.simps)
  then have "collect_checks (NodeItem i (MapEntry m) st sd anc # xs) = collect_checks xs"
    unfolding collect_checks_def Let_def by (simp del: filter_filter is_topmap.simps)
  with assms False show ?thesis by auto
qed

lemma collect_checks_partial:
  "collect_checks (all_nodes_recursive anc g) = Inr cs \<Longrightarrow>
     cs = map check_for (filter eligible (top_level_exit_edges (enclosed_by anc) g))"
  "collect_checks (all_nodes_recursive_states anc sd sts) = Inr cs \<Longrightarrow>
     cs = map check_for
            (filter eligible (top_level_exit_edges_states (enclosed_by anc) sd sts))"
  "collect_checks (all_nodes_recursive_nodes anc sd st i ns) = Inr cs \<Longrightarrow>
     cs = map check_for
            (filter eligible (top_level_exit_edges_nodes (enclosed_by anc) sd st i ns))"
proof (induction anc g and anc sd sts and anc sd st i ns arbitrary: cs and cs and cs
      rule: all_nodes_recursive_all_nodes_recursive_states_all_nodes_recursive_nodes.induct
        [case_names 1 2 3 4 5 access entry exit tasklet])
  case (1 anc n arrs sts)
  then show ?case by simp
next
  case (2 anc sd)
  then show ?case by simp
next
  case (3 anc sd ns es sc sts)
  from 3(3) have
    "collect_checks (all_nodes_recursive_nodes anc sd (SDFGState ns es sc) 0 ns @
                     all_nodes_recursive_states anc sd sts) = Inr cs"
    by simp
  from collect_checks_append_Inr [OF this] obtain a b where
    "collect_checks (all_nodes_recursive_nodes anc sd (SDFGState ns es sc) 0 ns) = Inr a"
    "collect_checks (all_nodes_recursive_states anc sd sts) = Inr b" "cs = a @ b"
    by blast
  with 3(1) [of a] 3(2) [of b] show ?case by simp
next
  case (4 anc sd st i)
  then show ?case by simp
next
  case (5 anc sd st i g ns)
  from 5(3) have
    "collect_checks (all_nodes_recursive ((st, i) # anc) g @
                     all_nodes_recursive_nodes anc sd st (Suc i) ns) = Inr cs"
    by simp
  from collect_checks_append_Inr [OF this] obtain a b where
    "collect_checks (all_nodes_recursive ((st, i) # anc) g) = Inr a"
    "collect_checks (all_nodes_recursive_nodes anc sd st (Suc i) ns) = Inr b" "cs = a @ b"
    by blast
  with 5(1) [of a] 5(2) [of b] show ?case
    by (simp add: enclosed_by_Cons)
next
  case (access anc sd st i v ns)
  from access(2) have "collect_checks (all_nodes_recursive_nodes anc sd st (Suc i) ns) = Inr cs"
    by simp
  from access(1) [OF this] show ?case by simp
next
  case (entry anc sd st i m ns)
  from entry(2) have
    "collect_checks (NodeItem i (MapEntry m) st sd anc #
                     all_nodes_recursive_nodes anc sd st (Suc i) ns) = Inr cs"
    by simp
  from collect_checks_MapEntry_Inr [OF this] obtain b where
    b: "collect_checks (all_nodes_recursive_nodes anc sd st (Suc i) ns) = Inr b"
    and cs: "cs = (if \<not> enclosed_by anc \<and> entry_node st i = None
                 then map check_for
                        (filter eligible (map (\<lambda>e. (sd, st, e)) (exit_edges st i)))
                 else []) @ b"
    by blast
  from entry(1) [OF b] cs show ?case by simp
next
  case (exit anc sd st i v ns)
  from exit(2) have "collect_checks (all_nodes_recursive_nodes anc sd st (Suc i) ns) = Inr cs"
    by simp
  from exit(1) [OF this] show ?case by simp
next
  case (tasklet anc sd st i v ns)
  from tasklet(2) have "collect_checks (all_nodes_recursive_nodes anc sd st (Suc i) ns) = Inr cs"
    by simp
  from tasklet(1) [OF this] show ?case by simp
qed


lemma map_ranges_of_has_ranges:
  "has_ranges m \<Longrightarrow> \<exists>r. map_ranges_of evaluate (subset m) = Inr r"
  "\<not> has_ranges m \<Longrightarrow> map_ranges_of evaluate (subset m) = Inl TypeError"
  by (auto simp: has_ranges_def neq_Nil_conv split: option.splits subset.splits)

lemma insert_check_Inr:
  assumes "map_of (arrays (check_parent c)) (check_data c) \<noteq> None"
    and "has_ranges (data (check_edge c))"
  shows "\<exists>t. insert_check evaluate c = Inr [(c, t)]"
proof -
  from assms(1) obtain inparr where
    "map_of (arrays (check_parent c)) (check_data c) = Some inparr" by auto
  moreover from map_ranges_of_has_ranges(1) [OF assms(2)] obtain r where
    "map_ranges_of evaluate (subset (data (check_edge c))) = Inr r" by blast
  ultimately show ?thesis by (simp add: insert_check_def Let_def)
qed

lemma insert_check_TypeError:
  assumes "map_of (arrays (check_parent c)) (check_data c) \<noteq> None"
    and "\<not> has_ranges (data (check_edge c))"
  shows "insert_check evaluate c = Inl TypeError"
proof -
  from assms(1) obtain inparr where
    "map_of (arrays (check_parent c)) (check_data c) = Some inparr" by auto
  with map_ranges_of_has_ranges(2) [OF assms(2)] show ?thesis
    by (simp add: insert_check_def Let_def)
qed

lemma insert_check_schedule:
  "insert_check evaluate c = Inr zs \<Longrightarrow> (c', t) \<in> set zs \<Longrightarrow>
   c' = c \<and> (\<exists>inparr. map_of (arrays (check_parent c)) (check_data c) = Some inparr
       \<and> schedule t = (if device_resident (storage inparr)
                        then GPU_Device else ScheduleType.Default))"
  by (auto simp: insert_check_def Let_def device_resident_def split: option.splits sum.splits)

lemma insert_check_fst: "insert_check evaluate c = Inr zs \<Longrightarrow> map fst zs = [c]"
  by (auto simp: insert_check_def Let_def split: option.splits sum.splits)

lemma collect_insert_check_fst:
  "collect (insert_check evaluate) cs = Inr ins \<Longrightarrow> map fst ins = cs"
proof (induction cs arbitrary: ins)
  case Nil
  then show ?case by simp
next
  case (Cons c cs)
  from Cons.prems obtain a b where
    a: "insert_check evaluate c = Inr a" and b: "collect (insert_check evaluate) cs = Inr b"
    and ins: "ins = a @ b"
    by (auto split: sum.splits)
  from insert_check_fst [OF a] Cons.IH [OF b] ins show ?case by simp
qed

lemma collect_insert_check_total:
  assumes "\<And>c. c \<in> set cs \<Longrightarrow> map_of (arrays (check_parent c)) (check_data c) \<noteq> None"
  shows "if list_all (\<lambda>c. has_ranges (data (check_edge c))) cs
         then \<exists>ins. collect (insert_check evaluate) cs = Inr ins
         else collect (insert_check evaluate) cs = Inl TypeError"
  using assms
proof (induction cs)
  case Nil
  show ?case by simp
next
  case (Cons c cs)
  then have IH: "if list_all (\<lambda>c. has_ranges (data (check_edge c))) cs
         then \<exists>ins. collect (insert_check evaluate) cs = Inr ins
         else collect (insert_check evaluate) cs = Inl TypeError"
    by simp
  from Cons.prems have d: "map_of (arrays (check_parent c)) (check_data c) \<noteq> None"
    by simp
  show ?case
  proof (cases "has_ranges (data (check_edge c))")
    case True
    from insert_check_Inr [OF d True] obtain t where
      "insert_check evaluate c = Inr [(c, t)]" by blast
    with IH True show ?thesis by (auto split: if_splits)
  next
    case False
    from insert_check_TypeError [OF d False] False show ?thesis by simp
  qed
qed

lemma check_out_edge_declared:
  "check_out_edge sd st e = Inr zs \<Longrightarrow> c \<in> set zs \<Longrightarrow>
   map_of (arrays (check_parent c)) (check_data c) \<noteq> None"
  by (auto simp: check_out_edge_def split: option.splits node.splits if_splits)

lemma check_map_declared:
  assumes "check_map x = Inr zs" and "c \<in> set zs"
  shows "map_of (arrays (check_parent c)) (check_data c) \<noteq> None"
proof (cases x)
  case (StateItem st p)
  with assms show ?thesis by simp
next
  case (NodeItem me n st p anc)
  with assms(1) obtain mx where
    "collect (check_out_edge p st) (out_edges st mx) = Inr zs"
    by (auto split: sum.splits)
  from collect_member [OF this assms(2)] show ?thesis
    by (auto dest: check_out_edge_declared)
qed

lemma collect_checks_declared:
  assumes "collect_checks items = Inr cs" and "c \<in> set cs"
  shows "map_of (arrays (check_parent c)) (check_data c) \<noteq> None"
proof -
  from assms(1) have
    "collect check_map (filter is_topmap (filter is_MapEntry_item items)) = Inr cs"
    by (simp add: collect_checks_def Let_def del: filter_filter)
  from collect_member [OF this assms(2)] show ?thesis
    by (auto dest: check_map_declared)
qed

lemma check_edge_check_for: "has_ranges (data (check_edge (check_for x))) = edge_has_ranges x"
  by (cases x) (simp add: check_for_def edge_has_ranges_def)

lemma NaN_checker_returned:
  assumes "NaN_checker evaluate g = Inr (ins, line)"
  shows "line = ''Added '' @
                str_nat (length (filter eligible (top_level_exit_edges False g))) @
                '' NaN checks''"
    and "map fst ins = map check_for (filter eligible (top_level_exit_edges False g))"
proof -
  from assms obtain cs where
    cs: "collect_checks (all_nodes_recursive [] g) = Inr cs"
    and i: "collect (insert_check evaluate) cs = Inr ins"
    and l: "line = ''Added '' @ str_nat (length cs) @ '' NaN checks''"
    by (auto simp: NaN_checker_def split: sum.splits)
  have "enclosed_by [] = False" by (simp add: enclosed_by_def)
  with collect_checks_partial(1) [OF cs]
  have e: "cs = map check_for (filter eligible (top_level_exit_edges False g))"
    by simp
  from l e show "line = ''Added '' @
                str_nat (length (filter eligible (top_level_exit_edges False g))) @
                '' NaN checks''"
    by (simp del: str_nat.simps)
  from collect_insert_check_fst [OF i] e
  show "map fst ins = map check_for (filter eligible (top_level_exit_edges False g))"
    by simp
qed

lemma NaN_checker_valid:
  assumes "valid_sdfg g"
  shows "if list_all edge_has_ranges (filter eligible (top_level_exit_edges False g))
         then \<exists>ins line. NaN_checker evaluate g = Inr (ins, line)
         else NaN_checker evaluate g = Inl TypeError"
proof -
  define E where "E = filter eligible (top_level_exit_edges False g)"
  have "enclosed_by [] = False" by (simp add: enclosed_by_def)
  with collect_checks_enumeration(1) [OF assms, of "[]"]
  have cs: "collect_checks (all_nodes_recursive [] g) = Inr (map check_for E)"
    by (simp add: E_def)
  have "\<And>c. c \<in> set (map check_for E) \<Longrightarrow>
          map_of (arrays (check_parent c)) (check_data c) \<noteq> None"
    using cs by (rule collect_checks_declared)
  from collect_insert_check_total [of "map check_for E" evaluate, OF this]
  have "if list_all edge_has_ranges E
        then \<exists>ins. collect (insert_check evaluate) (map check_for E) = Inr ins
        else collect (insert_check evaluate) (map check_for E) = Inl TypeError"
    by (simp add: list_all_iff check_edge_check_for)
  with cs show ?thesis
    by (auto simp: NaN_checker_def E_def split: if_splits simp del: str_nat.simps)
qed

lemmas graph_eval =
  valid_state_def exit_node_def entry_node_def out_edges_def exit_edges_def
  eligible_def dst_access_def node_at_def is_view_array_def plain_edge_def plain_array_def
  full_write_def dynamic_write_def empty_memlet_def edge_has_ranges_def has_ranges_def

lemma valid_two_maps: "valid_sdfg two_maps"
  by (simp add: two_maps_def graph_eval)



lemma eligible_two_maps:
  "length (filter eligible (top_level_exit_edges False two_maps)) = 2"
  "list_all edge_has_ranges (filter eligible (top_level_exit_edges False two_maps))"
  by (simp_all add: two_maps_def graph_eval)




lemma checks_two_maps:
  "map (check_data \<circ> check_for) (filter eligible (top_level_exit_edges False two_maps))
     = [''a'', ''b'']"
  by (simp add: two_maps_def graph_eval check_for_def)



text \<open>
  Claim C7. Every region that \<^verbatim>\<open>NaN_checker\<close> inserts has the schedule
  \<open>GPU_Device\<close> when the storage of the array it checks is device-resident, and the
  default schedule otherwise.
\<close>

theorem NaN_checker_schedule:
  assumes "NaN_checker evaluate g = Inr (inserted, line)"
    and "(c, t) \<in> set inserted"
  shows "\<exists>inparr. map_of (arrays (check_parent c)) (check_data c) = Some inparr
           \<and> (schedule t = GPU_Device) = device_resident (storage inparr)
           \<and> (schedule t = ScheduleType.Default) = (\<not> device_resident (storage inparr))"
proof -
  from assms(1) obtain cs where
    "collect (insert_check evaluate) cs = Inr inserted"
    by (auto simp: NaN_checker_def split: sum.splits)
  from collect_member [OF this assms(2)] obtain c' zs where
    "insert_check evaluate c' = Inr zs" "(c, t) \<in> set zs"
    by blast
  from insert_check_schedule [OF this] show ?thesis by auto
qed


theorem NaN_checker_schedule_witness:
  "\<exists>inserted line.
     NaN_checker id two_maps = Inr (inserted, line)
     \<and> map (\<lambda>(c, t). (check_data c, schedule t)) inserted
         = [(''a'', ScheduleType.Default), (''b'', GPU_Device)]"
proof -
  from NaN_checker_valid [OF valid_two_maps, of id] eligible_two_maps(2)
  obtain ins line where n: "NaN_checker id two_maps = Inr (ins, line)"
    by auto
  from NaN_checker_returned(2) [OF n]
  have f: "map fst ins = map check_for (filter eligible (top_level_exit_edges False two_maps))" .
  from f have "map (check_data \<circ> fst) ins = [''a'', ''b'']"
    using checks_two_maps by (metis map_map)
  then obtain c1 t1 c2 t2 where
    ins: "ins = [(c1, t1), (c2, t2)]" and d: "check_data c1 = ''a''" "check_data c2 = ''b''"
    by (auto simp: map_eq_Cons_conv)
  from f ins have p: "check_parent c1 = two_maps" "check_parent c2 = two_maps"
    by (auto simp: two_maps_def graph_eval check_for_def)
  from NaN_checker_schedule [OF n, of c1 t1] ins d(1) p(1) have "schedule t1 = ScheduleType.Default"
    by (simp add: two_maps_def plain_array_def device_resident_def)
  moreover from NaN_checker_schedule [OF n, of c2 t2] ins d(2) p(2) have "schedule t2 = GPU_Device"
    by (simp add: two_maps_def plain_array_def device_resident_def)
  ultimately show ?thesis using n ins d by simp
qed


end
